theory Spec2Isabelle
  imports Complex_Main
begin

section \<open>Score, combo, multiplier and health (App.tsx)\<close>

text \<open>
  The numbers of the program are JavaScript numbers. Score, combo, multiplier and health
  only ever hold integers far below \<open>2^53\<close>, where the arithmetic of the source is
  exact: they are modelled as \<open>int\<close>.
\<close>

datatype GameStatus = LOADING | IDLE | PLAYING | GAME_OVER | VICTORY

text \<open>
  The five pieces of React state of the \<open>App\<close> component, in the order of their
  \<open>useState\<close> calls.
\<close>

record app_state =
  gameStatus :: GameStatus
  score :: int
  combo :: int
  multiplier :: int
  health :: int

text \<open>The values given to \<open>useState\<close> when the component is mounted.\<close>

definition initialApp :: app_state where
  "initialApp = \<lparr>gameStatus = LOADING, score = 0, combo = 0, multiplier = 1, health = 100\<rparr>"

text \<open>
  A call of a state setter does not change the state. It is put in the queue of its piece
  of state, and the queues are worked off when the component is rendered next, one piece
  of state after the other in the order of the \<open>useState\<close> calls. A setter called with
  a function (an updater) has that function run only then, on the state the queue has
  reached. These are the queues of the four numbers and of the status, oldest call first:
  \<^item> \<open>setScore\<close> is only called with updaters;
  \<^item> \<open>setCombo\<close> is called with an updater or a value; its updater in
    \<open>handleNoteHit\<close> calls \<open>setMultiplier\<close> while it runs, so a combo update is a
    function to the new combo and the values it passes to \<open>setMultiplier\<close>;
  \<^item> \<open>setMultiplier\<close> is only called with values;
  \<^item> \<open>setHealth\<close> is only called with updaters; the one of \<open>handleNoteMiss\<close> may
    schedule \<open>endGame (false)\<close> while it runs, so a health update is a function to the
    new health and whether it did;
  \<^item> \<open>setGameStatus\<close> is only called with values.
\<close>

record pending_updates =
  statusUpdates :: "GameStatus list"
  scoreUpdates :: "(int \<Rightarrow> int) list"
  comboUpdates :: "(int \<Rightarrow> int \<times> int list) list"
  multiplierUpdates :: "int list"
  healthUpdates :: "(int \<Rightarrow> int \<times> bool) list"

definition noUpdates :: pending_updates where
  "noUpdates = \<lparr>statusUpdates = [], scoreUpdates = [], comboUpdates = [],
     multiplierUpdates = [], healthUpdates = []\<rparr>"

text \<open>
  The chain of thresholds inside the updater passed to \<open>setCombo\<close> in
  \<open>handleNoteHit\<close>: the value handed to \<open>setMultiplier\<close> for a new combo.
\<close>

definition comboMultiplier :: "int \<Rightarrow> int" where
  "comboMultiplier newCombo =
     (if newCombo > 30 then 8
      else if newCombo > 20 then 4
      else if newCombo > 10 then 2
      else 1)"

text \<open>
  The updater \<open>c => { const newCombo = c + 1; ...; return newCombo; }\<close>: the new combo
  and the one call of \<open>setMultiplier\<close> it makes.
\<close>

definition comboHitUpdater :: "int \<Rightarrow> int \<times> int list" where
  "comboHitUpdater c = (let newCombo = c + 1 in (newCombo, [comboMultiplier newCombo]))"

text \<open>
  \<open>handleNoteHit\<close> is built by \<open>useCallback\<close> with the dependency \<open>[multiplier]\<close>:
  the \<open>multiplier\<close> read in \<open>setScore (s => s + points * multiplier)\<close> is the value
  of the render in which the callback was created. It is the parameter \<open>m\<close> here.
  The handler calls \<open>setCombo\<close>, \<open>setScore\<close> and \<open>setHealth\<close>, in that order. The
  note argument is not used by the handler and is left out.
\<close>

definition handleNoteHit :: "int \<Rightarrow> bool \<Rightarrow> pending_updates \<Rightarrow> pending_updates" where
  "handleNoteHit m goodCut q =
     (let points = (if goodCut then 100 + 50 else 100)
      in q\<lparr>comboUpdates := comboUpdates q @ [comboHitUpdater],
            scoreUpdates := scoreUpdates q @ [\<lambda>s. s + points * m],
            healthUpdates := healthUpdates q @ [\<lambda>h. (min 100 (h + 2), False)]\<rparr>)"

text \<open>
  The updater of \<open>setHealth\<close> in \<open>handleNoteMiss\<close>: the new health, and whether it
  called \<open>setTimeout (() => endGame (false), 0)\<close>.
\<close>

definition healthMissUpdater :: "int \<Rightarrow> int \<times> bool" where
  "healthMissUpdater h =
     (let newHealth = h - 15
      in if newHealth \<le> 0 then (0, True) else (newHealth, False))"

text \<open>\<open>handleNoteMiss\<close>: \<open>setCombo (0)\<close>, \<open>setMultiplier (1)\<close> and \<open>setHealth\<close>.\<close>

definition handleNoteMiss :: "pending_updates \<Rightarrow> pending_updates" where
  "handleNoteMiss q =
     q\<lparr>comboUpdates := comboUpdates q @ [\<lambda>c. (0, [])],
       multiplierUpdates := multiplierUpdates q @ [1],
       healthUpdates := healthUpdates q @ [healthMissUpdater]\<rparr>"

text \<open>\<open>endGame\<close> (pausing the audio is outside the model).\<close>

definition endGame :: "bool \<Rightarrow> pending_updates \<Rightarrow> pending_updates" where
  "endGame victory q =
     q\<lparr>statusUpdates := statusUpdates q @ [if victory then VICTORY else GAME_OVER]\<rparr>"

text \<open>
  What the scene reports to the application: \<open>onNoteHit (note, goodCut)\<close>,
  \<open>onNoteMiss (note)\<close> and \<open>onSongEnd ()\<close>. A note is named by its index in the chart.
\<close>

datatype judge_event = Hit nat bool | Missed nat | SongEnd

text \<open>One call of a handler, \<open>m\<close> being the multiplier captured by \<open>handleNoteHit\<close>.\<close>

fun dispatch :: "int \<Rightarrow> pending_updates \<Rightarrow> judge_event \<Rightarrow> pending_updates" where
  "dispatch m q (Hit k goodCut) = handleNoteHit m goodCut q"
| "dispatch m q (Missed k) = handleNoteMiss q"
| "dispatch m q SongEnd = endGame True q"

text \<open>
  Working off the queue of the combo from the combo \<open>c\<close>: the new combo and, in the order
  they were made, the calls of \<open>setMultiplier\<close> made by the updaters. The same for the
  health, with whether any updater scheduled \<open>endGame (false)\<close>.
\<close>

definition runComboUpdates :: "int \<Rightarrow> (int \<Rightarrow> int \<times> int list) list \<Rightarrow> int \<times> int list" where
  "runComboUpdates c us =
     foldl (\<lambda>a u. (fst (u (fst a)), snd a @ snd (u (fst a)))) (c, []) us"

definition runHealthUpdates :: "int \<Rightarrow> (int \<Rightarrow> int \<times> bool) list \<Rightarrow> int \<times> bool" where
  "runHealthUpdates h us =
     foldl (\<lambda>a u. (fst (u (fst a)), snd a \<or> snd (u (fst a)))) (h, False) us"

text \<open>
  The render that follows: every queue is worked off from the state before. The combo
  comes before the multiplier, so the values its updaters pass to \<open>setMultiplier\<close> join
  the queue of the multiplier behind the values the handlers had passed themselves, and
  the last value of that queue is the new multiplier. A scheduled \<open>endGame (false)\<close> runs
  after the render and is taken as done with it.
\<close>

definition render :: "app_state \<Rightarrow> pending_updates \<Rightarrow> app_state" where
  "render st q =
     (let newScore = foldl (\<lambda>s u. u s) (score st) (scoreUpdates q);
          c = runComboUpdates (combo st) (comboUpdates q);
          newMultiplier = foldl (\<lambda>s v. v) (multiplier st) (multiplierUpdates q @ snd c);
          h = runHealthUpdates (health st) (healthUpdates q);
          newStatus = foldl (\<lambda>s v. v) (gameStatus st)
                        (statusUpdates q @ (if snd h then [GAME_OVER] else []))
      in \<lparr>gameStatus = newStatus, score = newScore, combo = fst c,
          multiplier = newMultiplier, health = fst h\<rparr>)"

text \<open>
  The events of one frame, in the order the judge reports them, reach handlers created by
  the last render: all of them see the same captured multiplier \<open>m\<close>. The component is
  rendered once after the frame.
\<close>

definition frameUpdates :: "int \<Rightarrow> judge_event list \<Rightarrow> pending_updates" where
  "frameUpdates m evs = foldl (dispatch m) noUpdates evs"

definition applyFrameEventsWith :: "int \<Rightarrow> app_state \<Rightarrow> judge_event list \<Rightarrow> app_state" where
  "applyFrameEventsWith m st evs = render st (frameUpdates m evs)"

text \<open>The captured multiplier is the one of the state the frame starts with.\<close>

definition applyFrameEvents :: "app_state \<Rightarrow> judge_event list \<Rightarrow> app_state" where
  "applyFrameEvents st evs = applyFrameEventsWith (multiplier st) st evs"

definition applyFrames :: "app_state \<Rightarrow> judge_event list list \<Rightarrow> app_state" where
  "applyFrames st frames = foldl applyFrameEvents st frames"

text \<open>Frames with any captured multipliers at all: a list of pairs.\<close>

definition applyCaptured :: "app_state \<Rightarrow> (int \<times> judge_event list) list \<Rightarrow> app_state" where
  "applyCaptured st mfs = foldl (\<lambda>s mf. applyFrameEventsWith (fst mf) s (snd mf)) st mfs"

text \<open>The points of an event: 150 for a good cut, 100 for a weak one.\<close>

fun pointsOf :: "judge_event \<Rightarrow> int" where
  "pointsOf (Hit k goodCut) = (if goodCut then 150 else 100)"
| "pointsOf (Missed k) = 0"
| "pointsOf SongEnd = 0"

section \<open>Vectors (the operations of THREE.Vector3 the program calls)\<close>

text \<open>
  Positions, velocities and times are JavaScript doubles. They are modelled as real
  numbers: the rounding of floating-point arithmetic, infinities and NaN are outside the
  model. A \<open>THREE.Vector3\<close> is a triple.
\<close>

type_synonym vec3 = "real \<times> real \<times> real"

definition subVectors :: "vec3 \<Rightarrow> vec3 \<Rightarrow> vec3" where
  "subVectors a b =
     (case a of (ax, ay, az) \<Rightarrow> case b of (bx, by, bz) \<Rightarrow> (ax - bx, ay - by, az - bz))"

definition divideScalar :: "vec3 \<Rightarrow> real \<Rightarrow> vec3" where
  "divideScalar v s = (case v of (x, y, z) \<Rightarrow> (x / s, y / s, z / s))"

definition lerpVectors :: "vec3 \<Rightarrow> vec3 \<Rightarrow> real \<Rightarrow> vec3" where
  "lerpVectors v1 v2 alpha =
     (case v1 of (x1, y1, z1) \<Rightarrow> case v2 of (x2, y2, z2) \<Rightarrow>
        (x1 + (x2 - x1) * alpha, y1 + (y2 - y1) * alpha, z1 + (z2 - z1) * alpha))"

definition length_v3 :: "vec3 \<Rightarrow> real" where
  "length_v3 v = (case v of (x, y, z) \<Rightarrow> sqrt (x * x + y * y + z * z))"

definition distanceTo :: "vec3 \<Rightarrow> vec3 \<Rightarrow> real" where
  "distanceTo a b = length_v3 (subVectors a b)"

text \<open>\<open>normalize\<close> divides by \<open>this.length () || 1\<close>: the zero vector stays as it is.\<close>

definition normalize :: "vec3 \<Rightarrow> vec3" where
  "normalize v = divideScalar v (if length_v3 v = 0 then 1 else length_v3 v)"

definition dot :: "vec3 \<Rightarrow> vec3 \<Rightarrow> real" where
  "dot a b = (case a of (ax, ay, az) \<Rightarrow> case b of (bx, by, bz) \<Rightarrow> ax * bx + ay * by + az * bz)"

section \<open>Types and constants (types.ts, constants.ts)\<close>

datatype HandType = LeftHand | RightHand

datatype CutDirection = UP | DOWN | LEFT | RIGHT | ANY

text \<open>
  \<open>NoteData\<close>. The optional flags \<open>hit\<close> and \<open>missed\<close> are read for their truth
  only, so that an absent flag is \<open>False\<close>.
\<close>

record NoteData =
  ident :: string
  time :: real
  lineIndex :: int
  lineLayer :: int
  handType :: HandType
  cutDirection :: CutDirection
  hit :: bool
  missed :: bool
  hitTime :: "real option"

definition SPAWN_Z :: real where "SPAWN_Z = - 30"
definition PLAYER_Z :: real where "PLAYER_Z = 0"
definition MISS_Z :: real where "MISS_Z = 5"
definition NOTE_SPEED :: real where "NOTE_SPEED = 10"
definition LANE_WIDTH :: real where "LANE_WIDTH = 0.8"

definition LANE_X_POSITIONS :: "real list" where
  "LANE_X_POSITIONS = [- 1.5 * LANE_WIDTH, - 0.5 * LANE_WIDTH, 0.5 * LANE_WIDTH, 1.5 * LANE_WIDTH]"

definition LAYER_Y_POSITIONS :: "real list" where
  "LAYER_Y_POSITIONS = [0.8, 1.6, 2.4]"

fun DIRECTION_VECTORS :: "CutDirection \<Rightarrow> vec3" where
  "DIRECTION_VECTORS UP = (0, 1, 0)"
| "DIRECTION_VECTORS DOWN = (0, - 1, 0)"
| "DIRECTION_VECTORS LEFT = (- 1, 0, 0)"
| "DIRECTION_VECTORS RIGHT = (1, 0, 0)"
| "DIRECTION_VECTORS ANY = (0, 0, 0)"

text \<open>Reading an array at a number: outside the array the source gets \<open>undefined\<close>.\<close>

definition at_index :: "'a list \<Rightarrow> int \<Rightarrow> 'a option" where
  "at_index xs i = (if 0 \<le> i \<and> i < int (length xs) then Some (xs ! nat i) else None)"

section \<open>Hand tracking (the hook useMediaPipe)\<close>

text \<open>
  The object behind \<open>handPositionsRef\<close>. The scene reads \<open>left\<close>, \<open>right\<close>,
  \<open>leftVelocity\<close> and \<open>rightVelocity\<close> of it.
\<close>

record hand_positions =
  left :: "vec3 option"
  right :: "vec3 option"
  lastLeft :: "vec3 option"
  lastRight :: "vec3 option"
  leftVelocity :: vec3
  rightVelocity :: vec3
  lastTimestamp :: real

definition initialHands :: hand_positions where
  "initialHands = \<lparr>left = None, right = None, lastLeft = None, lastRight = None,
     leftVelocity = (0, 0, 0), rightVelocity = (0, 0, 0), lastTimestamp = 0\<rparr>"

definition mapHandToWorld :: "real \<Rightarrow> real \<Rightarrow> vec3" where
  "mapHandToWorld x y =
     (let GAME_X_RANGE = 5;
          GAME_Y_RANGE = 3.5;
          Y_OFFSET = 0.8;
          worldX = (0.5 - x) * GAME_X_RANGE;
          worldY = (1.0 - y) * GAME_Y_RANGE - (GAME_Y_RANGE / 2) + Y_OFFSET;
          worldZ = - max 0 (worldY * 0.2)
      in (worldX, max 0.1 worldY, worldZ))"

text \<open>
  One hand of a detector result: the category name of \<open>handedness[i][0]\<close> and the
  coordinates \<open>x\<close>, \<open>y\<close> of landmark 8 of \<open>landmarks[i]\<close>, the tip of the index
  finger. The detector gives both for every hand it reports.
\<close>

record detection =
  categoryName :: string
  tip :: "real \<times> real"

text \<open>
  The loop over \<open>results.landmarks\<close>: the pair \<open>(newLeft, newRight)\<close>, a later hand
  of the same side overwriting an earlier one.
\<close>

definition assignHand :: "vec3 option \<times> vec3 option \<Rightarrow> detection \<Rightarrow> vec3 option \<times> vec3 option" where
  "assignHand new d =
     (let isRight = (categoryName d = ''Right'');
          worldPos = mapHandToWorld (fst (tip d)) (snd (tip d))
      in if isRight then (fst new, Some worldPos) else (Some worldPos, snd new))"

definition LERP :: real where "LERP = 0.6"

text \<open>
  The block "Update State with Smoothing and Velocity", which the source writes out once
  for the left hand and once for the right one: from the new position of the hand (if
  any), its current position and velocity and its last position, the new current
  position, last position and velocity.
\<close>

definition conditionHand ::
  "real \<Rightarrow> vec3 option \<Rightarrow> vec3 option \<Rightarrow> vec3 option \<Rightarrow> vec3 \<Rightarrow> vec3 option \<times> vec3 option \<times> vec3" where
  "conditionHand deltaTime new cur lastPos vel =
     (case new of
        None \<Rightarrow> (None, lastPos, vel)
      | Some raw \<Rightarrow>
          (case cur of
             None \<Rightarrow> (Some raw, Some raw, vel)
           | Some p \<Rightarrow>
               (let smoothed = lerpVectors p raw LERP;
                    vel' = (if deltaTime > 0.001
                            then divideScalar (subVectors smoothed p) deltaTime
                            else vel)
                in (Some smoothed, Some p, vel'))))"

text \<open>
  The pair \<open>(newLeft, newRight)\<close> after the loop; \<open>results\<close> is \<open>None\<close> when
  \<open>results.landmarks\<close> is absent, and the loop is skipped.
\<close>

definition detectedHands :: "detection list option \<Rightarrow> vec3 option \<times> vec3 option" where
  "detectedHands results =
     (case results of None \<Rightarrow> (None, None) | Some ds \<Rightarrow> foldl assignHand (None, None) ds)"

text \<open>
  \<open>processResults\<close>, with the value of \<open>performance.now ()\<close> (milliseconds) as the
  parameter \<open>now\<close>.
\<close>

definition processResults :: "real \<Rightarrow> detection list option \<Rightarrow> hand_positions \<Rightarrow> hand_positions" where
  "processResults now results s =
     (let deltaTime = (now - lastTimestamp s) / 1000;
          new = detectedHands results;
          l = conditionHand deltaTime (fst new) (left s) (lastLeft s) (leftVelocity s);
          r = conditionHand deltaTime (snd new) (right s) (lastRight s) (rightVelocity s)
      in s\<lparr>lastTimestamp := now,
           left := fst l, lastLeft := fst (snd l), leftVelocity := snd (snd l),
           right := fst r, lastRight := fst (snd r), rightVelocity := snd (snd r)\<rparr>)"

text \<open>A run of detector cycles, each with its time stamp and its result.\<close>

definition detectorCycles :: "hand_positions \<Rightarrow> (real \<times> detection list option) list \<Rightarrow> hand_positions" where
  "detectorCycles s cycles = foldl (\<lambda>s (now, results). processResults now results s) s cycles"

section \<open>The scene: admission and judgment of notes (GameScene)\<close>

text \<open>
  The objects of the chart are shared: \<open>notesState\<close> holds them, \<open>activeNotesRef\<close>
  holds references to some of them, and the judge sets \<open>hit\<close>, \<open>missed\<close> and
  \<open>hitTime\<close> on the object itself. The objects are the entries of the list
  \<open>notesState\<close> here and a reference is an index into it, so that a change of a note
  is seen through every reference to it. \<open>nextNoteIndex\<close> is \<open>nextNoteIndexRef\<close>.
\<close>

record scene_state =
  notesState :: "NoteData list"
  activeNotes :: "nat list"
  nextNoteIndex :: nat

definition initialScene :: "NoteData list \<Rightarrow> scene_state" where
  "initialScene chart = \<lparr>notesState = chart, activeNotes = [], nextNoteIndex = 0\<rparr>"

definition spawnAheadTime :: real where
  "spawnAheadTime = \<bar>SPAWN_Z - PLAYER_Z\<bar> / NOTE_SPEED"

text \<open>The loop "1. Spawn Notes" at the audio time \<open>t\<close>.\<close>

function spawn_loop :: "real \<Rightarrow> scene_state \<Rightarrow> scene_state" where
  "spawn_loop t st =
     (if nextNoteIndex st < length (notesState st) then
        (let nextNote = notesState st ! nextNoteIndex st
         in if time nextNote - spawnAheadTime \<le> t
            then spawn_loop t (st\<lparr>activeNotes := activeNotes st @ [nextNoteIndex st],
                                   nextNoteIndex := nextNoteIndex st + 1\<rparr>)
            else st)
      else st)"
  by pat_completeness auto
termination
  by (relation "measure (\<lambda>(t, st). length (notesState st) - nextNoteIndex st)") auto

declare spawn_loop.simps [simp del]

text \<open>\<open>splice (i, 1)\<close> on an array.\<close>

definition splice1 :: "nat \<Rightarrow> 'a list \<Rightarrow> 'a list" where
  "splice1 i xs = take i xs @ drop (Suc i) xs"

text \<open>
  The vector \<open>notePos\<close>. For a lane or a layer outside the tables the source reads
  \<open>undefined\<close>, the distance is NaN and the comparison with 0.8 fails: there is no
  position then, and no hit.
\<close>

definition notePosition :: "NoteData \<Rightarrow> real \<Rightarrow> vec3 option" where
  "notePosition note currentZ =
     (case at_index LANE_X_POSITIONS (lineIndex note) of
        None \<Rightarrow> None
      | Some x \<Rightarrow>
          (case at_index LAYER_Y_POSITIONS (lineLayer note) of
             None \<Rightarrow> None
           | Some y \<Rightarrow> Some (x, y, currentZ)))"

text \<open>The value of \<open>goodCut\<close> at the call of \<open>handleHit\<close>.\<close>

definition goodCutOf :: "CutDirection \<Rightarrow> vec3 \<Rightarrow> bool" where
  "goodCutOf dir handVel =
     (let speed = length_v3 handVel
      in if dir \<noteq> ANY then
           (let requiredDir = DIRECTION_VECTORS dir;
                d = dot (normalize handVel) requiredDir
            in \<not> (d < 0.3 \<or> speed < 1.5))
         else \<not> (speed < 1.5))"

text \<open>
  The body of the loop "2. Update and Collide Notes" for the index \<open>i\<close> of
  \<open>activeNotesRef.current\<close>, with the calls of \<open>onNoteMiss\<close> and \<open>handleHit\<close>
  recorded as events in the order they are made.
\<close>

definition judge_note ::
  "nat \<Rightarrow> real \<Rightarrow> hand_positions \<Rightarrow> scene_state \<times> judge_event list \<Rightarrow> scene_state \<times> judge_event list" where
  "judge_note i t hands se =
     (let st = fst se; evs = snd se;
          k = activeNotes st ! i;
          note = notesState st ! k
      in if hit note \<or> missed note then se
         else
           (let timeDiff = time note - t;
                currentZ = PLAYER_Z - (timeDiff * NOTE_SPEED)
            in if currentZ > MISS_Z then
                 (st\<lparr>notesState := (notesState st)[k := note\<lparr>missed := True\<rparr>],
                     activeNotes := splice1 i (activeNotes st)\<rparr>,
                  evs @ [Missed k])
               else if currentZ > PLAYER_Z - 1.5 \<and> currentZ < PLAYER_Z + 1.0 then
                 (let handPos = (if handType note = LeftHand then left hands else right hands);
                      handVel = (if handType note = LeftHand then leftVelocity hands
                                 else rightVelocity hands)
                  in case handPos of
                       None \<Rightarrow> se
                     | Some hp \<Rightarrow>
                         (case notePosition note currentZ of
                            None \<Rightarrow> se
                          | Some notePos \<Rightarrow>
                              if distanceTo hp notePos < 0.8 then
                                (st\<lparr>notesState :=
                                      (notesState st)[k := note\<lparr>hit := True, hitTime := Some t\<rparr>],
                                    activeNotes := splice1 i (activeNotes st)\<rparr>,
                                 evs @ [Hit k (goodCutOf (cutDirection note) handVel)])
                              else se))
               else se))"

text \<open>
  The loop itself, \<open>for (let i = length - 1; i >= 0; i--)\<close>: \<open>judge_loop n\<close> runs
  the body for the indices \<open>n - 1\<close> down to 0.
\<close>

fun judge_loop ::
  "nat \<Rightarrow> real \<Rightarrow> hand_positions \<Rightarrow> scene_state \<times> judge_event list \<Rightarrow> scene_state \<times> judge_event list" where
  "judge_loop 0 t hands se = se"
| "judge_loop (Suc i) t hands se = judge_loop i t hands (judge_note i t hands se)"

text \<open>
  The game part of the first \<open>useFrame\<close> callback (the pulsing lights and the camera
  shake are outside the model). \<open>audio\<close> is \<open>None\<close> when \<open>audioRef.current\<close> is
  absent, and otherwise \<open>currentTime\<close> and \<open>ended\<close> of the audio element.
\<close>

definition useFrame ::
  "GameStatus \<Rightarrow> (real \<times> bool) option \<Rightarrow> hand_positions \<Rightarrow> scene_state \<Rightarrow> scene_state \<times> judge_event list" where
  "useFrame status audio hands st =
     (case audio of
        None \<Rightarrow> (st, [])
      | Some (t, ended) \<Rightarrow>
          if status \<noteq> PLAYING then (st, [])
          else if ended then (st, [SongEnd])
          else
            (let st1 = spawn_loop t st
             in judge_loop (length (activeNotes st1)) t hands (st1, [])))"

text \<open>
  A run of frames of a session that is playing and whose audio has not ended, each with the
  audio time and the hands it reads: the last scene and all events in order.
\<close>

fun playFrames ::
  "scene_state \<Rightarrow> (real \<times> hand_positions) list \<Rightarrow> scene_state \<times> judge_event list" where
  "playFrames st [] = (st, [])"
| "playFrames st (f # fs) =
     (let r1 = useFrame PLAYING (Some (fst f, False)) (snd f) st;
          r2 = playFrames (fst r1) fs
      in (fst r2, snd r1 @ snd r2))"

text \<open>The application and the scene together: one frame, its events handled.\<close>

definition gameFrame ::
  "(real \<times> bool) option \<Rightarrow> hand_positions \<Rightarrow> app_state \<times> scene_state \<Rightarrow> app_state \<times> scene_state" where
  "gameFrame audio hands g =
     (let r = useFrame (gameStatus (fst g)) audio hands (snd g)
      in (applyFrameEvents (fst g) (snd r), fst r))"

text \<open>
  \<open>startGame\<close>: nothing without the camera; else the score state is reset, the flags of
  every note of the chart are cleared, and the status becomes \<open>PLAYING\<close> when the
  audio starts (\<open>audioPlays\<close>). The notes of \<open>DEMO_CHART\<close> are the objects of
  \<open>notesState\<close>. The cursor and the active notes of the scene are left as they are.
\<close>

definition startGame :: "bool \<Rightarrow> bool \<Rightarrow> app_state \<times> scene_state \<Rightarrow> app_state \<times> scene_state" where
  "startGame isCameraReady audioPlays g =
     (if \<not> isCameraReady then g
      else
        (let app1 = (fst g)\<lparr>score := 0, combo := 0, multiplier := 1, health := 100\<rparr>;
             scene1 = (snd g)\<lparr>notesState :=
                         map (\<lambda>n. n\<lparr>hit := False, missed := False\<rparr>) (notesState (snd g))\<rparr>
         in (if audioPlays then app1\<lparr>gameStatus := PLAYING\<rparr> else app1, scene1)))"

section \<open>Notions for the properties of hand tracking\<close>

text \<open>
  Predicates for the proofs: a position at height 0.1 or more and at depth 0 or less, for
  the tracked hands of a state and for a pair of new positions.
\<close>

definition pos_ok :: "vec3 \<Rightarrow> bool" where
  "pos_ok p = (0.1 \<le> fst (snd p) \<and> snd (snd p) \<le> 0)"

definition hands_ok :: "hand_positions \<Rightarrow> bool" where
  "hands_ok s = ((case left s of None \<Rightarrow> True | Some p \<Rightarrow> pos_ok p) \<and>
                 (case right s of None \<Rightarrow> True | Some p \<Rightarrow> pos_ok p))"

definition new_ok :: "vec3 option \<times> vec3 option \<Rightarrow> bool" where
  "new_ok new = ((case fst new of None \<Rightarrow> True | Some p \<Rightarrow> pos_ok p) \<and>
                 (case snd new of None \<Rightarrow> True | Some p \<Rightarrow> pos_ok p))"


text \<open>
  The velocity the specification describes for a hand detected again after a gap, in its
  words: the difference of the new and the previous smoothed position, divided by the time
  elapsed since the last successful sample of that hand.
\<close>

definition specVelocity :: "vec3 \<Rightarrow> vec3 \<Rightarrow> real \<Rightarrow> vec3" where
  "specVelocity newSmoothedPos previousSmoothedPos elapsed =
     divideScalar (subVectors newSmoothedPos previousSmoothedPos) elapsed"


section \<open>Notions for the properties of the scene\<close>

text \<open>A note is pending while neither of its flags is set.\<close>

definition pending :: "NoteData \<Rightarrow> bool" where
  "pending n = (\<not> hit n \<and> \<not> missed n)"

text \<open>
  The scenes a session can meet: the active references are distinct and point below the
  cursor, the cursor is within the chart, the active notes and the notes not yet admitted
  are pending, and no note has both flags. \<open>startGame\<close> makes it so and every frame
  keeps it so.
\<close>

definition scene_wf :: "scene_state \<Rightarrow> bool" where
  "scene_wf st =
     (distinct (activeNotes st) \<and>
      nextNoteIndex st \<le> length (notesState st) \<and>
      (\<forall>k \<in> set (activeNotes st). k < nextNoteIndex st) \<and>
      (\<forall>k < length (notesState st).
         (k \<in> set (activeNotes st) \<or> nextNoteIndex st \<le> k) \<longrightarrow> pending (notesState st ! k)) \<and>
      (\<forall>k < length (notesState st). \<not> (hit (notesState st ! k) \<and> missed (notesState st ! k))))"

text \<open>The note an event is about, and the number of events about a note.\<close>

fun event_note :: "judge_event \<Rightarrow> nat option" where
  "event_note (Hit k goodCut) = Some k"
| "event_note (Missed k) = Some k"
| "event_note SongEnd = None"

definition events_for :: "nat \<Rightarrow> judge_event list \<Rightarrow> nat" where
  "events_for k evs = length (filter (\<lambda>e. event_note e = Some k) evs)"

text \<open>
  What the body of the judging loop decides for a pending note \<open>k\<close>: nothing, or the
  note with its new flags and the event reported.
\<close>

definition noteOutcome ::
  "real \<Rightarrow> hand_positions \<Rightarrow> nat \<Rightarrow> NoteData \<Rightarrow> (NoteData \<times> judge_event) option" where
  "noteOutcome t hands k note =
     (let currentZ = PLAYER_Z - ((time note - t) * NOTE_SPEED)
      in if currentZ > MISS_Z then Some (note\<lparr>missed := True\<rparr>, Missed k)
         else if currentZ > PLAYER_Z - 1.5 \<and> currentZ < PLAYER_Z + 1.0 then
           (case (if handType note = LeftHand then left hands else right hands) of
              None \<Rightarrow> None
            | Some hp \<Rightarrow>
                (case notePosition note currentZ of
                   None \<Rightarrow> None
                 | Some notePos \<Rightarrow>
                     if distanceTo hp notePos < 0.8
                     then Some (note\<lparr>hit := True, hitTime := Some t\<rparr>,
                                Hit k (goodCutOf (cutDirection note)
                                  (if handType note = LeftHand then leftVelocity hands
                                   else rightVelocity hands)))
                     else None))
         else None)"

definition resolvedCount :: "NoteData \<Rightarrow> nat" where
  "resolvedCount n = (if pending n then 0 else 1)"

text \<open>
  How a scene \<open>s\<close> and the events \<open>evs\<close> come from a scene \<open>s0\<close> by judging:
  the chart keeps its length, the cursor does not go back, a resolved note stays as it is,
  and a note has an event exactly when it went from pending to resolved, a Missed event
  with the flag \<open>missed\<close> and a Hit event with the flag \<open>hit\<close>.
\<close>

definition frame_rel :: "scene_state \<Rightarrow> scene_state \<Rightarrow> judge_event list \<Rightarrow> bool" where
  "frame_rel s0 s evs =
     (length (notesState s) = length (notesState s0) \<and>
      nextNoteIndex s0 \<le> nextNoteIndex s \<and>
      SongEnd \<notin> set evs \<and>
      (\<forall>k. length (notesState s0) \<le> k \<longrightarrow> events_for k evs = 0) \<and>
      (\<forall>k < length (notesState s0).
         (\<not> pending (notesState s0 ! k) \<longrightarrow> notesState s ! k = notesState s0 ! k) \<and>
         events_for k evs + resolvedCount (notesState s0 ! k) = resolvedCount (notesState s ! k) \<and>
         (Missed k \<in> set evs \<longrightarrow> missed (notesState s ! k)) \<and>
         (\<forall>g. Hit k g \<in> set evs \<longrightarrow> hit (notesState s ! k))))"

text \<open>A chart in ascending order of arrival time.\<close>

definition chartSorted :: "NoteData list \<Rightarrow> bool" where
  "chartSorted notes = sorted_wrt (\<lambda>a b. time a \<le> time b) notes"

text \<open>
  A note for lane 1, layer 0 and the left hand, and hands of which the left one is at the
  slot of that note with a given velocity: the inputs of the scenarios.
\<close>

definition sampleNote :: "real \<Rightarrow> CutDirection \<Rightarrow> NoteData" where
  "sampleNote arrival dir =
     \<lparr>ident = ''note-0'', time = arrival, lineIndex = 1, lineLayer = 0, handType = LeftHand,
      cutDirection = dir, hit = False, missed = False, hitTime = None\<rparr>"

definition sampleHands :: "vec3 \<Rightarrow> hand_positions" where
  "sampleHands vel = initialHands\<lparr>left := Some (- 0.4, 0.8, 0), leftVelocity := vel\<rparr>"

section \<open>Properties of the score state\<close>

lemma frameUpdates_snoc: "frameUpdates m (evs @ [e]) = dispatch m (frameUpdates m evs) e"
  by (simp add: frameUpdates_def)

lemma frame_nil: "applyFrameEventsWith m st [] = st"
  by (simp add: applyFrameEventsWith_def frameUpdates_def render_def noUpdates_def
      runComboUpdates_def runHealthUpdates_def)

lemma render_hit:
  "score (render st (handleNoteHit m g q)) = score (render st q) + (if g then 150 else 100) * m"
  "combo (render st (handleNoteHit m g q)) = combo (render st q) + 1"
  "multiplier (render st (handleNoteHit m g q)) = comboMultiplier (combo (render st q) + 1)"
  "health (render st (handleNoteHit m g q)) = min 100 (health (render st q) + 2)"
  by (simp_all add: render_def handleNoteHit_def runComboUpdates_def runHealthUpdates_def
      comboHitUpdater_def Let_def)

lemma render_miss:
  "score (render st (handleNoteMiss q)) = score (render st q)"
  "combo (render st (handleNoteMiss q)) = 0"
  "health (render st (handleNoteMiss q)) = max 0 (health (render st q) - 15)"
  by (simp_all add: render_def handleNoteMiss_def runComboUpdates_def runHealthUpdates_def
      healthMissUpdater_def Let_def)

lemma render_end:
  "score (render st (endGame v q)) = score (render st q)"
  "combo (render st (endGame v q)) = combo (render st q)"
  "multiplier (render st (endGame v q)) = multiplier (render st q)"
  "health (render st (endGame v q)) = health (render st q)"
  by (simp_all add: render_def endGame_def Let_def)

lemma frame_snoc_health:
  "health (applyFrameEventsWith m st (evs @ [Hit k g])) =
     min 100 (health (applyFrameEventsWith m st evs) + 2)"
  "health (applyFrameEventsWith m st (evs @ [Missed k])) =
     max 0 (health (applyFrameEventsWith m st evs) - 15)"
  "health (applyFrameEventsWith m st (evs @ [SongEnd])) =
     health (applyFrameEventsWith m st evs)"
  by (simp_all add: applyFrameEventsWith_def frameUpdates_snoc render_hit render_miss render_end)

lemma frame_snoc_score:
  "score (applyFrameEventsWith m st (evs @ [e])) =
     score (applyFrameEventsWith m st evs) + pointsOf e * m"
  by (cases e)
     (simp_all add: applyFrameEventsWith_def frameUpdates_snoc render_hit render_miss render_end)

lemma frame_score: "score (applyFrameEventsWith m st evs) = score st + (\<Sum>e\<leftarrow>evs. pointsOf e) * m"
  by (induction evs rule: rev_induct)
     (simp_all add: frame_nil frame_snoc_score algebra_simps)

lemma frame_health_bounds:
  "0 \<le> health st \<Longrightarrow> health st \<le> 100 \<Longrightarrow>
   0 \<le> health (applyFrameEventsWith m st evs) \<and> health (applyFrameEventsWith m st evs) \<le> 100"
proof (induction evs rule: rev_induct)
  case Nil
  then show ?case by (simp add: frame_nil)
next
  case (snoc e evs)
  then show ?case by (cases e) (simp_all add: frame_snoc_health)
qed

lemma applyCaptured_health_bounds:
  "0 \<le> health st \<Longrightarrow> health st \<le> 100 \<Longrightarrow>
   0 \<le> health (applyCaptured st mfs) \<and> health (applyCaptured st mfs) \<le> 100"
proof (induction mfs arbitrary: st)
  case Nil
  then show ?case by (simp add: applyCaptured_def)
next
  case (Cons mf mfs)
  have "0 \<le> health (applyFrameEventsWith (fst mf) st (snd mf)) \<and>
        health (applyFrameEventsWith (fst mf) st (snd mf)) \<le> 100"
    using Cons.prems by (rule frame_health_bounds)
  then have "0 \<le> health (applyCaptured (applyFrameEventsWith (fst mf) st (snd mf)) mfs) \<and>
             health (applyCaptured (applyFrameEventsWith (fst mf) st (snd mf)) mfs) \<le> 100"
    using Cons.IH by blast
  then show ?case by (simp add: applyCaptured_def)
qed

lemma applyFrames_health_bounds:
  "0 \<le> health st \<Longrightarrow> health st \<le> 100 \<Longrightarrow>
   0 \<le> health (applyFrames st frames) \<and> health (applyFrames st frames) \<le> 100"
proof (induction frames arbitrary: st)
  case Nil
  then show ?case by (simp add: applyFrames_def)
next
  case (Cons evs frames)
  have "0 \<le> health (applyFrameEvents st evs) \<and> health (applyFrameEvents st evs) \<le> 100"
    unfolding applyFrameEvents_def using Cons.prems by (rule frame_health_bounds)
  then have "0 \<le> health (applyFrames (applyFrameEvents st evs) frames) \<and>
             health (applyFrames (applyFrameEvents st evs) frames) \<le> 100"
    using Cons.IH by blast
  then show ?case by (simp add: applyFrames_def)
qed

text \<open>
  Claim C3. From health 100, after any sequence of Hit and Missed events, in any order and
  however they are spread over frames, health is an integer between 0 and 100. Within a
  frame and alone, a Hit makes it \<open>min 100 (h + 2)\<close> and a Missed makes it
  \<open>max 0 (h - 15)\<close>.
\<close>

theorem health_always_in_range:
  "0 \<le> health (applyFrames initialApp frames) \<and>
   health (applyFrames initialApp frames) \<le> 100 \<and>
   0 \<le> health (applyCaptured initialApp mfs) \<and>
   health (applyCaptured initialApp mfs) \<le> 100 \<and>
   health initialApp = 100 \<and>
   health (applyFrameEventsWith m st []) = health st \<and>
   health (applyFrameEventsWith m st (evs @ [Hit k q])) =
     min 100 (health (applyFrameEventsWith m st evs) + 2) \<and>
   health (applyFrameEventsWith m st (evs @ [Missed k])) =
     max 0 (health (applyFrameEventsWith m st evs) - 15) \<and>
   health (applyFrameEventsWith m st [Hit k q]) = min 100 (health st + 2) \<and>
   health (applyFrameEventsWith m st [Missed k]) = max 0 (health st - 15)"
proof -
  have init: "0 \<le> health initialApp" "health initialApp \<le> 100" "health initialApp = 100"
    by (simp_all add: initialApp_def)
  have one: "health (applyFrameEventsWith m st [Hit k q]) = min 100 (health st + 2)"
    "health (applyFrameEventsWith m st [Missed k]) = max 0 (health st - 15)"
    using frame_snoc_health(1) [of m st "[]" k q] frame_snoc_health(2) [of m st "[]" k]
    by (simp_all add: frame_nil)
  show ?thesis
    using applyFrames_health_bounds [OF init(1,2), of frames]
      applyCaptured_health_bounds [OF init(1,2), of mfs] init(3) one
      frame_snoc_health(1) [of m st evs k q] frame_snoc_health(2) [of m st evs k]
    by (simp add: frame_nil)
qed

text \<open>
  Claim C9. A Missed event leaves the score as it was: \<open>handleNoteMiss\<close> puts nothing in
  the queue of the score (nor of the status); it changes combo, multiplier and health.
  The score after a frame is the score before plus the points of its Hit events times the
  captured multiplier, whatever Missed events lie between them. The end of the song leaves
  the score too; \<open>startGame\<close> sets it to 0.
\<close>

theorem miss_keeps_score:
  "scoreUpdates (handleNoteMiss q) = scoreUpdates q \<and>
   statusUpdates (handleNoteMiss q) = statusUpdates q \<and>
   score (applyFrameEventsWith m st (evs @ [Missed k])) = score (applyFrameEventsWith m st evs) \<and>
   score (applyFrameEventsWith m st evs) = score st + (\<Sum>e\<leftarrow>evs. pointsOf e) * m \<and>
   pointsOf (Missed k) = 0 \<and>
   score (applyFrameEvents st [Missed k]) = score st \<and>
   combo (applyFrameEvents st [Missed k]) = 0 \<and>
   multiplier (applyFrameEvents st [Missed k]) = 1 \<and>
   health (applyFrameEvents st [Missed k]) = max 0 (health st - 15) \<and>
   score (applyFrameEvents st (map Missed ks)) = score st \<and>
   score (applyFrameEvents st [SongEnd]) = score st \<and>
   score (fst (startGame True audioPlays (st, sc))) = 0"
proof -
  have q: "scoreUpdates (handleNoteMiss q) = scoreUpdates q"
    "statusUpdates (handleNoteMiss q) = statusUpdates q"
    by (simp_all add: handleNoteMiss_def)
  have snoc: "score (applyFrameEventsWith m st (evs @ [Missed k])) =
      score (applyFrameEventsWith m st evs)"
    by (simp add: frame_snoc_score)
  have all: "score (applyFrameEventsWith m' st evs') = score st + (\<Sum>e\<leftarrow>evs'. pointsOf e) * m'"
    for m' evs'
    by (rule frame_score)
  have zero: "(\<Sum>e\<leftarrow>map Missed ks. pointsOf e) = 0"
    by (induction ks) simp_all
  have one: "combo (applyFrameEvents st [Missed k]) = 0"
    "multiplier (applyFrameEvents st [Missed k]) = 1"
    "health (applyFrameEvents st [Missed k]) = max 0 (health st - 15)"
    by (simp_all add: applyFrameEvents_def applyFrameEventsWith_def frameUpdates_def render_def
        handleNoteMiss_def noUpdates_def runComboUpdates_def runHealthUpdates_def
        healthMissUpdater_def Let_def)
  have start: "score (fst (startGame True audioPlays (st, sc))) = 0"
    by (simp add: startGame_def Let_def)
  have many: "score (applyFrameEvents st (map Missed ks)) = score st"
    unfolding applyFrameEvents_def all zero by simp
  have single: "score (applyFrameEvents st [Missed k]) = score st"
    "score (applyFrameEvents st [SongEnd]) = score st"
    unfolding applyFrameEvents_def all by simp_all
  have p: "pointsOf (Missed k) = 0" by simp
  from q snoc all [of m evs] p single(1) one many single(2) start show ?thesis
    by blast
qed

section \<open>Properties of hand tracking\<close>

lemma mapHandToWorld_ok: "pos_ok (mapHandToWorld x y)"
  by (simp add: pos_ok_def mapHandToWorld_def Let_def)

lemma assignHand_ok: "new_ok new \<Longrightarrow> new_ok (assignHand new d)"
  by (simp add: new_ok_def assignHand_def Let_def mapHandToWorld_ok)

lemma foldl_assignHand_ok: "new_ok new \<Longrightarrow> new_ok (foldl assignHand new ds)"
  by (induction ds arbitrary: new) (simp_all add: assignHand_ok)

lemma lerp_ok: "pos_ok p \<Longrightarrow> pos_ok q \<Longrightarrow> pos_ok (lerpVectors p q LERP)"
  by (cases p, cases q) (simp add: pos_ok_def lerpVectors_def LERP_def, argo)

lemma conditionHand_ok:
  "(case new of None \<Rightarrow> True | Some p \<Rightarrow> pos_ok p) \<Longrightarrow>
   (case cur of None \<Rightarrow> True | Some p \<Rightarrow> pos_ok p) \<Longrightarrow>
   (case fst (conditionHand dt new cur lastPos vel) of None \<Rightarrow> True | Some p \<Rightarrow> pos_ok p)"
proof (cases new)
  case None
  then show ?thesis by (simp add: conditionHand_def)
next
  case (Some raw)
  assume n: "case new of None \<Rightarrow> True | Some p \<Rightarrow> pos_ok p"
    and c: "case cur of None \<Rightarrow> True | Some p \<Rightarrow> pos_ok p"
  show ?thesis
  proof (cases cur)
    case None
    with Some n show ?thesis by (simp add: conditionHand_def)
  next
    case (Some q)
    have "pos_ok (lerpVectors q raw LERP)"
      using n c Some \<open>new = Some raw\<close> by (simp add: lerp_ok)
    with Some \<open>new = Some raw\<close> show ?thesis
      by (simp add: conditionHand_def Let_def)
  qed
qed

lemma detectedHands_ok: "new_ok (detectedHands results)"
proof -
  have "new_ok (None, None)" by (simp add: new_ok_def)
  then show ?thesis
    unfolding detectedHands_def by (cases results) (simp_all add: foldl_assignHand_ok)
qed

lemma processResults_ok: "hands_ok s \<Longrightarrow> hands_ok (processResults now results s)"
  using detectedHands_ok [of results]
    conditionHand_ok [of "fst (detectedHands results)" "left s"]
    conditionHand_ok [of "snd (detectedHands results)" "right s"]
  by (simp add: hands_ok_def new_ok_def processResults_def Let_def)

lemma detectorCycles_ok: "hands_ok s \<Longrightarrow> hands_ok (detectorCycles s cycles)"
proof (induction cycles arbitrary: s)
  case Nil
  then show ?case by (simp add: detectorCycles_def)
next
  case (Cons c cycles)
  obtain now results where c: "c = (now, results)" by (cases c)
  have "hands_ok (processResults now results s)"
    using Cons.prems by (rule processResults_ok)
  from Cons.IH [OF this] show ?case by (simp add: detectorCycles_def c)
qed

text \<open>
  Claim C10. The projection of a detected point is a function of the point alone. Its
  height is the world height clamped from below at 0.1 and its depth is
  \<open>- max 0 (0.2 * worldY)\<close>, never positive. Every position of a tracked hand that the
  judge can read, smoothed or not, has height at least 0.1 and depth at most 0.
\<close>

theorem hand_projection_bounds:
  "fst (snd (mapHandToWorld x y)) = max 0.1 ((1 - y) * 3.5 - 3.5 / 2 + 0.8) \<and>
   snd (snd (mapHandToWorld x y)) = - max 0 (0.2 * ((1 - y) * 3.5 - 3.5 / 2 + 0.8)) \<and>
   0.1 \<le> fst (snd (mapHandToWorld x y)) \<and>
   snd (snd (mapHandToWorld x y)) \<le> 0 \<and>
   (left (detectorCycles initialHands cycles) = Some p \<or>
    right (detectorCycles initialHands cycles) = Some p \<longrightarrow>
      0.1 \<le> fst (snd p) \<and> snd (snd p) \<le> 0)"
proof -
  have "hands_ok initialHands" by (simp add: hands_ok_def initialHands_def)
  then have "hands_ok (detectorCycles initialHands cycles)" by (rule detectorCycles_ok)
  then have "left (detectorCycles initialHands cycles) = Some p \<or>
    right (detectorCycles initialHands cycles) = Some p \<longrightarrow>
      0.1 \<le> fst (snd p) \<and> snd (snd p) \<le> 0"
    by (auto simp: hands_ok_def pos_ok_def)
  moreover have "fst (snd (mapHandToWorld x y)) = max 0.1 ((1 - y) * 3.5 - 3.5 / 2 + 0.8)"
    by (simp add: mapHandToWorld_def Let_def)
  moreover have "snd (snd (mapHandToWorld x y)) = - max 0 (0.2 * ((1 - y) * 3.5 - 3.5 / 2 + 0.8))"
    by (simp add: mapHandToWorld_def Let_def mult.commute)
  moreover have "0.1 \<le> fst (snd (mapHandToWorld x y))" "snd (snd (mapHandToWorld x y)) \<le> 0"
    using mapHandToWorld_ok [of x y] by (simp_all add: pos_ok_def)
  ultimately show ?thesis by blast
qed

theorem hand_projection_bounds_witness:
  "left (detectorCycles initialHands
       [(16, Some [\<lparr>categoryName = ''Left'', tip = (0.5, 0.5)\<rparr>])]) = Some (0, 0.8, - 0.16) \<and>
   (0.1::real) \<le> fst (snd (0::real, 0.8::real, - 0.16::real)) \<and>
   snd (snd (0::real, 0.8::real, - 0.16::real)) \<le> 0"
  using hand_projection_bounds [of "0.5" "0.5"
      "[(16, Some [\<lparr>categoryName = ''Left'', tip = (0.5, 0.5)\<rparr>])]" "(0, 0.8, - 0.16)"]
  by (simp add: detectorCycles_def processResults_def initialHands_def conditionHand_def
      assignHand_def detectedHands_def mapHandToWorld_def Let_def)

lemma processResults_left:
  "left (processResults now results s) =
     fst (conditionHand ((now - lastTimestamp s) / 1000) (fst (detectedHands results))
            (left s) (lastLeft s) (leftVelocity s))"
  "leftVelocity (processResults now results s) =
     snd (snd (conditionHand ((now - lastTimestamp s) / 1000) (fst (detectedHands results))
            (left s) (lastLeft s) (leftVelocity s)))"
  "right (processResults now results s) =
     fst (conditionHand ((now - lastTimestamp s) / 1000) (snd (detectedHands results))
            (right s) (lastRight s) (rightVelocity s))"
  "rightVelocity (processResults now results s) =
     snd (snd (conditionHand ((now - lastTimestamp s) / 1000) (snd (detectedHands results))
            (right s) (lastRight s) (rightVelocity s)))"
  "lastTimestamp (processResults now results s) = now"
  by (simp_all add: processResults_def Let_def)

lemma conditionHand_cases:
  "fst (conditionHand dt None cur lastPos vel) = None"
  "snd (snd (conditionHand dt None cur lastPos vel)) = vel"
  "fst (conditionHand dt (Some raw) None lastPos vel) = Some raw"
  "snd (snd (conditionHand dt (Some raw) None lastPos vel)) = vel"
  "fst (conditionHand dt (Some raw) (Some p) lastPos vel) = Some (lerpVectors p raw LERP)"
  "snd (snd (conditionHand dt (Some raw) (Some p) lastPos vel)) =
     (if dt > 0.001 then divideScalar (subVectors (lerpVectors p raw LERP) p) dt else vel)"
  by (simp_all add: conditionHand_def Let_def)

lemma gap_left:
  "(\<forall>c \<in> set gap. fst (detectedHands (snd c)) = None) \<Longrightarrow>
   leftVelocity (detectorCycles s gap) = leftVelocity s \<and>
   (gap \<noteq> [] \<longrightarrow> left (detectorCycles s gap) = None)"
proof (induction gap arbitrary: s rule: rev_induct)
  case Nil
  then show ?case by (simp add: detectorCycles_def)
next
  case (snoc c gap)
  obtain now results where c: "c = (now, results)" by (cases c)
  have n: "fst (detectedHands results) = None" using snoc.prems c by simp
  have "leftVelocity (detectorCycles s gap) = leftVelocity s"
    using snoc by simp
  then show ?case
    by (simp add: detectorCycles_def c processResults_left n conditionHand_cases)
qed

text \<open>
  Claim C2, as the code has it. A cycle that detects a hand whose position the previous
  cycle had kept smooths the position with the factor 0.6 and sets the velocity to
  (new smoothed position - previous smoothed position) / deltaTime, where deltaTime is
  the time since the previous detector cycle, and leaves the velocity as it is when
  deltaTime is not above 0.001 seconds. A cycle that does not detect the hand drops its
  position and keeps its velocity. A cycle that detects a hand again after a gap of one or
  more cycles takes the projected position unsmoothed and does not compute a velocity:
  the hand keeps the velocity it had before the gap.
\<close>

theorem hand_velocity_update:
  "lastTimestamp (processResults now results s) = now \<and>
   (fst (detectedHands results) = Some raw \<and> left s = Some p \<longrightarrow>
      left (processResults now results s) = Some (lerpVectors p raw 0.6) \<and>
      leftVelocity (processResults now results s) =
        (if (now - lastTimestamp s) / 1000 > 0.001
         then divideScalar (subVectors (lerpVectors p raw 0.6) p) ((now - lastTimestamp s) / 1000)
         else leftVelocity s)) \<and>
   (fst (detectedHands results) = Some raw \<and> left s = None \<longrightarrow>
      left (processResults now results s) = Some raw \<and>
      leftVelocity (processResults now results s) = leftVelocity s) \<and>
   (fst (detectedHands results) = None \<longrightarrow>
      left (processResults now results s) = None \<and>
      leftVelocity (processResults now results s) = leftVelocity s) \<and>
   (snd (detectedHands results) = Some raw \<and> right s = Some p \<longrightarrow>
      right (processResults now results s) = Some (lerpVectors p raw 0.6) \<and>
      rightVelocity (processResults now results s) =
        (if (now - lastTimestamp s) / 1000 > 0.001
         then divideScalar (subVectors (lerpVectors p raw 0.6) p) ((now - lastTimestamp s) / 1000)
         else rightVelocity s)) \<and>
   (snd (detectedHands results) = Some raw \<and> right s = None \<longrightarrow>
      right (processResults now results s) = Some raw \<and>
      rightVelocity (processResults now results s) = rightVelocity s) \<and>
   (snd (detectedHands results) = None \<longrightarrow>
      right (processResults now results s) = None \<and>
      rightVelocity (processResults now results s) = rightVelocity s) \<and>
   (gap \<noteq> [] \<and> (\<forall>c \<in> set gap. fst (detectedHands (snd c)) = None) \<and>
    fst (detectedHands results) = Some raw \<longrightarrow>
      left (processResults now results (detectorCycles s gap)) = Some raw \<and>
      leftVelocity (processResults now results (detectorCycles s gap)) = leftVelocity s)"
proof -
  have g: "left (processResults now results (detectorCycles s gap)) = Some raw \<and>
      leftVelocity (processResults now results (detectorCycles s gap)) = leftVelocity s"
    if "gap \<noteq> []" "\<forall>c \<in> set gap. fst (detectedHands (snd c)) = None"
      "fst (detectedHands results) = Some raw"
    using gap_left [OF that(2), of s] that(1,3)
    by (simp add: processResults_left conditionHand_cases)
  show ?thesis
    using g by (simp add: processResults_left conditionHand_cases LERP_def)
qed

lemmas hand_eval = detectorCycles_def processResults_def initialHands_def conditionHand_def
  assignHand_def detectedHands_def mapHandToWorld_def lerpVectors_def subVectors_def
  divideScalar_def LERP_def Let_def

theorem hand_velocity_update_witness:
  "fst (detectedHands (Some [\<lparr>categoryName = ''Left'', tip = (0.3, 0.5)\<rparr>])) = Some (1, 0.8, - 0.16) \<and>
   left (detectorCycles initialHands
     [(1000, Some [\<lparr>categoryName = ''Left'', tip = (0.5, 0.5)\<rparr>])]) = Some (0, 0.8, - 0.16) \<and>
   leftVelocity (processResults 1100 (Some [\<lparr>categoryName = ''Left'', tip = (0.3, 0.5)\<rparr>])
     (detectorCycles initialHands
       [(1000, Some [\<lparr>categoryName = ''Left'', tip = (0.5, 0.5)\<rparr>])])) = (6, 0, 0) \<and>
   [(1200, Some []), (1300, Some []), (1400::real, Some ([]::detection list))] \<noteq> [] \<and>
   fst (detectedHands (Some [])) = None \<and>
   fst (detectedHands (Some [\<lparr>categoryName = ''Left'', tip = (0.38, 0.5)\<rparr>])) =
     Some (0.6, 0.8, - 0.16) \<and>
   left (processResults 1500 (Some [\<lparr>categoryName = ''Left'', tip = (0.38, 0.5)\<rparr>])
     (detectorCycles
       (detectorCycles initialHands
         [(1000, Some [\<lparr>categoryName = ''Left'', tip = (0.5, 0.5)\<rparr>]),
          (1100, Some [\<lparr>categoryName = ''Left'', tip = (0.3, 0.5)\<rparr>])])
       [(1200, Some []), (1300, Some []), (1400, Some [])])) = Some (0.6, 0.8, - 0.16) \<and>
   leftVelocity (processResults 1500 (Some [\<lparr>categoryName = ''Left'', tip = (0.38, 0.5)\<rparr>])
     (detectorCycles
       (detectorCycles initialHands
         [(1000, Some [\<lparr>categoryName = ''Left'', tip = (0.5, 0.5)\<rparr>]),
          (1100, Some [\<lparr>categoryName = ''Left'', tip = (0.3, 0.5)\<rparr>])])
       [(1200, Some []), (1300, Some []), (1400, Some [])])) = (6, 0, 0)"
proof -
  define d1 where "d1 = \<lparr>categoryName = ''Left'', tip = (0.5::real, 0.5::real)\<rparr>"
  define d2 where "d2 = \<lparr>categoryName = ''Left'', tip = (0.3::real, 0.5::real)\<rparr>"
  define d3 where "d3 = \<lparr>categoryName = ''Left'', tip = (0.38::real, 0.5::real)\<rparr>"
  define s1 where "s1 = detectorCycles initialHands [(1000, Some [d1])]"
  define s2 where "s2 = detectorCycles initialHands [(1000, Some [d1]), (1100, Some [d2])]"
  define gap :: "(real \<times> detection list option) list"
    where "gap = [(1200, Some []), (1300, Some []), (1400, Some [])]"
  have h1: "fst (detectedHands (Some [d2])) = Some (1, 0.8, - 0.16)"
    by (simp add: d2_def detectedHands_def assignHand_def mapHandToWorld_def Let_def)
  have h2: "left s1 = Some (0, 0.8, - 0.16)"
    by (simp add: s1_def d1_def hand_eval)
  have t1: "lastTimestamp s1 = 1000"
    by (simp add: s1_def d1_def hand_eval)
  have h3: "gap \<noteq> []" by (simp add: gap_def)
  have h4: "\<forall>c \<in> set gap. fst (detectedHands (snd c)) = None"
    by (simp add: gap_def detectedHands_def)
  have h5: "fst (detectedHands (Some [d3])) = Some (0.6, 0.8, - 0.16)"
    by (simp add: d3_def detectedHands_def assignHand_def mapHandToWorld_def Let_def)
  have v2: "leftVelocity s2 = (6, 0, 0)"
    by (simp add: s2_def d1_def d2_def hand_eval)
  have c1: "leftVelocity (processResults 1100 (Some [d2]) s1) =
        (if (1100 - lastTimestamp s1) / 1000 > 0.001
         then divideScalar (subVectors (lerpVectors (0, 0.8, - 0.16) (1, 0.8, - 0.16) 0.6)
                (0, 0.8, - 0.16)) ((1100 - lastTimestamp s1) / 1000)
         else leftVelocity s1)"
    using hand_velocity_update [of 1100 "Some [d2]" s1 "(1, 0.8, - 0.16)" "(0, 0.8, - 0.16)" gap]
      h1 h2 by blast
  have c2: "left (processResults 1500 (Some [d3]) (detectorCycles s2 gap)) = Some (0.6, 0.8, - 0.16) \<and>
      leftVelocity (processResults 1500 (Some [d3]) (detectorCycles s2 gap)) = leftVelocity s2"
    using hand_velocity_update [of 1500 "Some [d3]" s2 "(0.6, 0.8, - 0.16)" "(0, 0, 0)" gap]
      h3 h4 h5 by blast
  have c1': "leftVelocity (processResults 1100 (Some [d2]) s1) = (6, 0, 0)"
    unfolding c1 t1 by (simp add: lerpVectors_def subVectors_def divideScalar_def)
  have e: "fst (detectedHands (Some [])) = None"
    by (simp add: detectedHands_def)
  show ?thesis
    using h1 h2 c1' h3 e h5 c2 v2
    unfolding d1_def d2_def d3_def s1_def s2_def gap_def by simp
qed

text \<open>
  The hand is seen at 1000 ms and at 1100 ms, which gives it the velocity (6, 0, 0); it is
  not seen at 1200, 1300 and 1400 ms and is seen again at 1500 ms, at the very position it
  had at 1100 ms. The velocity of the specification, computed once over the 0.4 seconds
  since the last successful sample, is zero; the code leaves the velocity at (6, 0, 0).
\<close>

theorem redetection_velocity_counterexample:
  "left (detectorCycles initialHands
     [(1000, Some [\<lparr>categoryName = ''Left'', tip = (0.5, 0.5)\<rparr>]),
      (1100, Some [\<lparr>categoryName = ''Left'', tip = (0.3, 0.5)\<rparr>])]) = Some (0.6, 0.8, - 0.16) \<and>
   leftVelocity (detectorCycles initialHands
     [(1000, Some [\<lparr>categoryName = ''Left'', tip = (0.5, 0.5)\<rparr>]),
      (1100, Some [\<lparr>categoryName = ''Left'', tip = (0.3, 0.5)\<rparr>])]) = (6, 0, 0) \<and>
   left (detectorCycles initialHands
     [(1000, Some [\<lparr>categoryName = ''Left'', tip = (0.5, 0.5)\<rparr>]),
      (1100, Some [\<lparr>categoryName = ''Left'', tip = (0.3, 0.5)\<rparr>]),
      (1200, Some []), (1300, Some []), (1400, Some []),
      (1500, Some [\<lparr>categoryName = ''Left'', tip = (0.38, 0.5)\<rparr>])]) = Some (0.6, 0.8, - 0.16) \<and>
   leftVelocity (detectorCycles initialHands
     [(1000, Some [\<lparr>categoryName = ''Left'', tip = (0.5, 0.5)\<rparr>]),
      (1100, Some [\<lparr>categoryName = ''Left'', tip = (0.3, 0.5)\<rparr>]),
      (1200, Some []), (1300, Some []), (1400, Some []),
      (1500, Some [\<lparr>categoryName = ''Left'', tip = (0.38, 0.5)\<rparr>])]) = (6, 0, 0) \<and>
   specVelocity (0.6, 0.8, - 0.16) (0.6, 0.8, - 0.16) ((1500 - 1100) / 1000) = (0, 0, 0) \<and>
   leftVelocity (detectorCycles initialHands
     [(1000, Some [\<lparr>categoryName = ''Left'', tip = (0.5, 0.5)\<rparr>]),
      (1100, Some [\<lparr>categoryName = ''Left'', tip = (0.3, 0.5)\<rparr>]),
      (1200, Some []), (1300, Some []), (1400, Some []),
      (1500, Some [\<lparr>categoryName = ''Left'', tip = (0.38, 0.5)\<rparr>])]) \<noteq>
   specVelocity (0.6, 0.8, - 0.16) (0.6, 0.8, - 0.16) ((1500 - 1100) / 1000)"
  by (simp add: hand_eval specVelocity_def)

section \<open>Properties of the scene\<close>

lemma judge_note_outcome:
  "judge_note i t hands (st, evs) =
     (let k = activeNotes st ! i; note = notesState st ! k
      in if \<not> pending note then (st, evs)
         else case noteOutcome t hands k note of
                None \<Rightarrow> (st, evs)
              | Some (n', e) \<Rightarrow>
                  (st\<lparr>notesState := (notesState st)[k := n'],
                      activeNotes := splice1 i (activeNotes st)\<rparr>, evs @ [e]))"
  by (simp add: judge_note_def noteOutcome_def pending_def Let_def split: option.splits)

lemma noteOutcome_props:
  assumes "noteOutcome t hands k note = Some (n', e)" and "pending note"
  shows "\<not> pending n'" and "\<not> (hit n' \<and> missed n')" and "event_note e = Some k"
    and "e \<noteq> SongEnd"
    and "(e = Missed k \<and> missed n') \<or> (\<exists>g. e = Hit k g \<and> hit n')"
  using assms
  by (auto simp: noteOutcome_def pending_def Let_def split: if_splits option.splits)

lemma events_for_simps [simp]:
  "events_for k [] = 0"
  "events_for k (evs @ evs') = events_for k evs + events_for k evs'"
  "events_for k [e] = (if event_note e = Some k then 1 else 0)"
  by (simp_all add: events_for_def)

lemma frame_rel_refl: "frame_rel s s []"
  by (simp add: frame_rel_def)

lemma frame_rel_trans:
  assumes "frame_rel s0 s1 e1" and "frame_rel s1 s2 e2"
  shows "frame_rel s0 s2 (e1 @ e2)"
proof -
  have len: "length (notesState s1) = length (notesState s0)"
    "length (notesState s2) = length (notesState s0)"
    using assms by (simp_all add: frame_rel_def)
  have nxt: "nextNoteIndex s0 \<le> nextNoteIndex s2"
    using assms by (simp add: frame_rel_def)
  have se: "SongEnd \<notin> set (e1 @ e2)"
    using assms by (simp add: frame_rel_def)
  have out: "events_for k (e1 @ e2) = 0" if "length (notesState s0) \<le> k" for k
    using assms that len by (simp add: frame_rel_def)
  have inr: "(\<not> pending (notesState s0 ! k) \<longrightarrow> notesState s2 ! k = notesState s0 ! k) \<and>
         events_for k (e1 @ e2) + resolvedCount (notesState s0 ! k) = resolvedCount (notesState s2 ! k) \<and>
         (Missed k \<in> set (e1 @ e2) \<longrightarrow> missed (notesState s2 ! k)) \<and>
         (\<forall>g. Hit k g \<in> set (e1 @ e2) \<longrightarrow> hit (notesState s2 ! k))"
    if k: "k < length (notesState s0)" for k
  proof -
    have a: "\<not> pending (notesState s0 ! k) \<longrightarrow> notesState s1 ! k = notesState s0 ! k"
      "events_for k e1 + resolvedCount (notesState s0 ! k) = resolvedCount (notesState s1 ! k)"
      "Missed k \<in> set e1 \<longrightarrow> missed (notesState s1 ! k)"
      "\<forall>g. Hit k g \<in> set e1 \<longrightarrow> hit (notesState s1 ! k)"
      using assms(1) k by (simp_all add: frame_rel_def)
    have b: "\<not> pending (notesState s1 ! k) \<longrightarrow> notesState s2 ! k = notesState s1 ! k"
      "events_for k e2 + resolvedCount (notesState s1 ! k) = resolvedCount (notesState s2 ! k)"
      "Missed k \<in> set e2 \<longrightarrow> missed (notesState s2 ! k)"
      "\<forall>g. Hit k g \<in> set e2 \<longrightarrow> hit (notesState s2 ! k)"
      using assms(2) k len by (simp_all add: frame_rel_def)
    show ?thesis
      using a b by (auto simp: pending_def)
  qed
  show ?thesis
    unfolding frame_rel_def using len nxt se out inr by blast
qed

lemma splice1_decomp:
  "i < length xs \<Longrightarrow> xs = take i xs @ xs ! i # drop (Suc i) xs"
  by (rule id_take_nth_drop)

lemma distinct_splice1: "distinct xs \<Longrightarrow> distinct (splice1 i xs)"
proof (cases "i < length xs")
  case True
  assume d: "distinct xs"
  have "distinct (take i xs @ xs ! i # drop (Suc i) xs)"
    using d splice1_decomp [OF True] by simp
  then show ?thesis by (simp add: splice1_def)
next
  case False
  assume "distinct xs"
  with False show ?thesis by (simp add: splice1_def)
qed

lemma set_splice1:
  assumes "distinct xs" and "i < length xs"
  shows "set (splice1 i xs) = set xs - {xs ! i}"
proof -
  have d: "distinct (take i xs @ xs ! i # drop (Suc i) xs)"
    using assms splice1_decomp [OF assms(2)] by simp
  have "set xs = set (take i xs @ xs ! i # drop (Suc i) xs)"
    using splice1_decomp [OF assms(2)] by simp
  then have "set xs = set (take i xs) \<union> {xs ! i} \<union> set (drop (Suc i) xs)"
    by simp
  moreover have "xs ! i \<notin> set (take i xs)" "xs ! i \<notin> set (drop (Suc i) xs)"
    using d by auto
  ultimately show ?thesis
    by (auto simp: splice1_def)
qed

lemma length_splice1: "i < length xs \<Longrightarrow> length (splice1 i xs) = length xs - 1"
  by (simp add: splice1_def)

lemma nth_splice1: "j < i \<Longrightarrow> i < length xs \<Longrightarrow> splice1 i xs ! j = xs ! j"
  by (simp add: splice1_def nth_append)

lemma judge_note_step:
  assumes wf: "scene_wf s" and i: "i < length (activeNotes s)"
  shows "\<exists>s' new. judge_note i t hands (s, e) = (s', e @ new) \<and>
           frame_rel s s' new \<and> scene_wf s' \<and>
           (activeNotes s' = activeNotes s \<or> activeNotes s' = splice1 i (activeNotes s)) \<and>
           (\<forall>k. k \<noteq> activeNotes s ! i \<longrightarrow> notesState s' ! k = notesState s ! k) \<and>
           nextNoteIndex s' = nextNoteIndex s"
proof -
  let ?k = "activeNotes s ! i"
  let ?note = "notesState s ! ?k"
  have kin: "?k \<in> set (activeNotes s)" using i by simp
  have klt: "?k < length (notesState s)" "?k < nextNoteIndex s"
    using wf kin by (auto simp: scene_wf_def)
  have pend: "pending ?note"
    using wf kin klt unfolding scene_wf_def by blast
  show ?thesis
  proof (cases "noteOutcome t hands ?k ?note")
    case None
    then have "judge_note i t hands (s, e) = (s, e @ [])"
      by (simp add: judge_note_outcome Let_def)
    then show ?thesis using wf frame_rel_refl by blast
  next
    case (Some r)
    obtain n' ev where r: "r = (n', ev)" by (cases r)
    let ?s' = "s\<lparr>notesState := (notesState s)[?k := n'],
                  activeNotes := splice1 i (activeNotes s)\<rparr>"
    have eq: "judge_note i t hands (s, e) = (?s', e @ [ev])"
      using Some r pend by (simp add: judge_note_outcome Let_def)
    note props = noteOutcome_props [OF Some [unfolded r] pend]
    have setsp: "set (splice1 i (activeNotes s)) = set (activeNotes s) - {?k}"
      using wf i by (simp add: set_splice1 scene_wf_def)
    have rel: "frame_rel s ?s' [ev]"
      unfolding frame_rel_def
      using props pend klt
      by (auto simp: resolvedCount_def nth_list_update)
    have wf': "scene_wf ?s'"
      unfolding scene_wf_def
      using wf props klt setsp
      by (auto simp: scene_wf_def distinct_splice1 nth_list_update)
    show ?thesis
      using eq rel wf' by auto
  qed
qed

lemma judge_loop_rel:
  "scene_wf s \<Longrightarrow> i \<le> length (activeNotes s) \<Longrightarrow>
   \<exists>s' new. judge_loop i t hands (s, e) = (s', e @ new) \<and>
     frame_rel s s' new \<and> scene_wf s' \<and>
     set (activeNotes s') \<subseteq> set (activeNotes s) \<and>
     nextNoteIndex s' = nextNoteIndex s"
proof (induction i arbitrary: s e)
  case 0
  have "judge_loop 0 t hands (s, e) = (s, e @ [])" by simp
  then show ?case using "0.prems" frame_rel_refl by blast
next
  case (Suc i)
  have i: "i < length (activeNotes s)" using Suc.prems by simp
  obtain s1 new1 where s1: "judge_note i t hands (s, e) = (s1, e @ new1)"
    "frame_rel s s1 new1" "scene_wf s1"
    "activeNotes s1 = activeNotes s \<or> activeNotes s1 = splice1 i (activeNotes s)"
    "nextNoteIndex s1 = nextNoteIndex s"
    using judge_note_step [OF Suc.prems(1) i, of t hands e] by blast
  have len: "i \<le> length (activeNotes s1)"
    using s1(4) i by (auto simp: length_splice1)
  have sub1: "set (activeNotes s1) \<subseteq> set (activeNotes s)"
    using s1(4) Suc.prems(1) i by (auto simp: set_splice1 scene_wf_def)
  obtain s' new2 where s': "judge_loop i t hands (s1, e @ new1) = (s', (e @ new1) @ new2)"
    "frame_rel s1 s' new2" "scene_wf s'" "set (activeNotes s') \<subseteq> set (activeNotes s1)"
    "nextNoteIndex s' = nextNoteIndex s1"
    using Suc.IH [OF s1(3) len, of "e @ new1"] by blast
  have "judge_loop (Suc i) t hands (s, e) = (s', e @ (new1 @ new2))"
    using s1(1) s'(1) by simp
  moreover have "frame_rel s s' (new1 @ new2)"
    using s1(2) s'(2) by (rule frame_rel_trans)
  ultimately show ?case
    using s'(3,4,5) sub1 s1(5) by (metis order_trans)
qed

lemma spawnAheadTime_3: "spawnAheadTime = 3"
  by (simp add: spawnAheadTime_def SPAWN_Z_def PLAYER_Z_def NOTE_SPEED_def)

lemma chartSorted_nth:
  "chartSorted notes \<Longrightarrow> i \<le> j \<Longrightarrow> j < length notes \<Longrightarrow> time (notes ! i) \<le> time (notes ! j)"
proof (cases "i = j")
  case True
  then show ?thesis by simp
next
  case False
  assume "chartSorted notes" "i \<le> j" "j < length notes"
  then have "sorted_wrt (\<lambda>a b. time a \<le> time b) notes" "i < j" "j < length notes"
    using False by (simp_all add: chartSorted_def)
  then show ?thesis by (rule sorted_wrt_nth_less)
qed

lemma spawn_loop_basic:
  "notesState (spawn_loop t st) = notesState st \<and>
   nextNoteIndex st \<le> nextNoteIndex (spawn_loop t st) \<and>
   (nextNoteIndex st \<le> length (notesState st) \<longrightarrow>
      nextNoteIndex (spawn_loop t st) \<le> length (notesState st)) \<and>
   activeNotes (spawn_loop t st) =
     activeNotes st @ [nextNoteIndex st ..< nextNoteIndex (spawn_loop t st)] \<and>
   (\<forall>k. nextNoteIndex st \<le> k \<and> k < nextNoteIndex (spawn_loop t st) \<longrightarrow>
      time (notesState st ! k) - spawnAheadTime \<le> t) \<and>
   (nextNoteIndex (spawn_loop t st) < length (notesState st) \<longrightarrow>
      \<not> time (notesState st ! nextNoteIndex (spawn_loop t st)) - spawnAheadTime \<le> t)"
proof (induction t st rule: spawn_loop.induct)
  case (1 t st)
  let ?n = "nextNoteIndex st"
  let ?notes = "notesState st"
  show ?case
  proof (cases "?n < length ?notes \<and> time (?notes ! ?n) - spawnAheadTime \<le> t")
    case False
    then have eq: "spawn_loop t st = st"
      by (auto simp: spawn_loop.simps [of t st] Let_def)
    show ?thesis using False by (auto simp: eq)
  next
    case True
    let ?st1 = "st\<lparr>activeNotes := activeNotes st @ [?n], nextNoteIndex := ?n + 1\<rparr>"
    have eq: "spawn_loop t st = spawn_loop t ?st1"
      using True by (simp add: spawn_loop.simps [of t st])
    let ?n' = "nextNoteIndex (spawn_loop t ?st1)"
    have ih: "notesState (spawn_loop t ?st1) = ?notes"
      "Suc ?n \<le> ?n'"
      "?n' \<le> length ?notes"
      "activeNotes (spawn_loop t ?st1) = (activeNotes st @ [?n]) @ [Suc ?n ..< ?n']"
      "\<forall>k. Suc ?n \<le> k \<and> k < ?n' \<longrightarrow> time (?notes ! k) - spawnAheadTime \<le> t"
      "?n' < length ?notes \<longrightarrow> \<not> time (?notes ! ?n') - spawnAheadTime \<le> t"
      using "1.IH" [OF _ refl, of] True by simp_all
    have lt: "?n < ?n'" using ih(2) by simp
    have all: "time (?notes ! k) - spawnAheadTime \<le> t" if "?n \<le> k" "k < ?n'" for k
    proof (cases "k = ?n")
      case True
      then show ?thesis using \<open>?n < length ?notes \<and> time (?notes ! ?n) - spawnAheadTime \<le> t\<close>
        by simp
    next
      case False
      then have "Suc ?n \<le> k" using that by simp
      then show ?thesis using ih(5) that by blast
    qed
    show ?thesis
      unfolding eq using ih(1,2,3,4,6) all lt by (simp add: upt_conv_Cons)
  qed
qed

lemma spawn_loop_sorted:
  assumes "chartSorted (notesState st)"
    and "nextNoteIndex st \<le> k" and "k < length (notesState st)"
  shows "(k < nextNoteIndex (spawn_loop t st)) = (time (notesState st ! k) - spawnAheadTime \<le> t)"
proof (cases "k < nextNoteIndex (spawn_loop t st)")
  case True
  then show ?thesis using spawn_loop_basic [of t st] assms(2) by blast
next
  case False
  let ?n' = "nextNoteIndex (spawn_loop t st)"
  have le: "?n' \<le> k" using False by simp
  then have "?n' < length (notesState st)" using assms(3) by simp
  then have stop: "\<not> time (notesState st ! ?n') - spawnAheadTime \<le> t"
    using spawn_loop_basic [of t st] by blast
  have "time (notesState st ! ?n') \<le> time (notesState st ! k)"
    using assms(1) le assms(3) by (rule chartSorted_nth)
  then show ?thesis using stop False by simp
qed

lemma spawn_loop_wf:
  assumes wf: "scene_wf s"
  shows "scene_wf (spawn_loop t s)" and "frame_rel s (spawn_loop t s) []"
proof -
  let ?s' = "spawn_loop t s"
  note b = spawn_loop_basic [of t s]
  have nts: "notesState ?s' = notesState s" using b by blast
  have act: "activeNotes ?s' = activeNotes s @ [nextNoteIndex s ..< nextNoteIndex ?s']"
    using b by blast
  have n: "nextNoteIndex s \<le> nextNoteIndex ?s'" "nextNoteIndex ?s' \<le> length (notesState s)"
    using b wf by (auto simp: scene_wf_def)
  show "scene_wf ?s'"
    unfolding scene_wf_def nts
    using wf n by (subst (1 2 3) act) (auto simp: scene_wf_def)
  show "frame_rel s ?s' []"
    using n by (simp add: frame_rel_def nts)
qed

lemma useFrame_playing:
  "useFrame PLAYING (Some (t, False)) hands s =
     judge_loop (length (activeNotes (spawn_loop t s))) t hands (spawn_loop t s, [])"
  by (simp add: useFrame_def Let_def)

lemma useFrame_rel:
  assumes wf: "scene_wf s"
  shows "scene_wf (fst (useFrame PLAYING (Some (t, False)) hands s))"
    and "frame_rel s (fst (useFrame PLAYING (Some (t, False)) hands s))
           (snd (useFrame PLAYING (Some (t, False)) hands s))"
    and "set (activeNotes (fst (useFrame PLAYING (Some (t, False)) hands s))) \<subseteq>
           set (activeNotes (spawn_loop t s))"
proof -
  let ?s1 = "spawn_loop t s"
  have wf1: "scene_wf ?s1" and r1: "frame_rel s ?s1 []"
    using wf by (rule spawn_loop_wf)+
  obtain s' new where l: "judge_loop (length (activeNotes ?s1)) t hands (?s1, []) = (s', [] @ new)"
    "frame_rel ?s1 s' new" "scene_wf s'" "set (activeNotes s') \<subseteq> set (activeNotes ?s1)"
    using judge_loop_rel [OF wf1 order_refl, of t hands "[]"] by blast
  have eq: "useFrame PLAYING (Some (t, False)) hands s = (s', new)"
    using l(1) by (simp add: useFrame_playing)
  show "scene_wf (fst (useFrame PLAYING (Some (t, False)) hands s))"
    using l(3) by (simp add: eq)
  show "frame_rel s (fst (useFrame PLAYING (Some (t, False)) hands s))
           (snd (useFrame PLAYING (Some (t, False)) hands s))"
    using frame_rel_trans [OF r1 l(2)] by (simp add: eq)
  show "set (activeNotes (fst (useFrame PLAYING (Some (t, False)) hands s))) \<subseteq>
           set (activeNotes (spawn_loop t s))"
    using l(4) by (simp add: eq)
qed

lemma playFrames_rel:
  "scene_wf s \<Longrightarrow>
   scene_wf (fst (playFrames s fs)) \<and> frame_rel s (fst (playFrames s fs)) (snd (playFrames s fs))"
proof (induction fs arbitrary: s)
  case Nil
  then show ?case by (simp add: frame_rel_refl)
next
  case (Cons f fs)
  let ?r1 = "useFrame PLAYING (Some (fst f, False)) (snd f) s"
  have wf1: "scene_wf (fst ?r1)" and rel1: "frame_rel s (fst ?r1) (snd ?r1)"
    using useFrame_rel [OF Cons.prems] by blast+
  have ih: "scene_wf (fst (playFrames (fst ?r1) fs))"
    "frame_rel (fst ?r1) (fst (playFrames (fst ?r1) fs)) (snd (playFrames (fst ?r1) fs))"
    using Cons.IH [OF wf1] by blast+
  show ?case
    using ih(1) frame_rel_trans [OF rel1 ih(2)] by (simp add: Let_def)
qed

lemma judge_loop_outcome:
  "scene_wf s \<Longrightarrow> i \<le> length (activeNotes s) \<Longrightarrow> j < i \<Longrightarrow>
   noteOutcome t hands (activeNotes s ! j) (notesState s ! (activeNotes s ! j)) = Some (n', ev) \<Longrightarrow>
   ev \<in> set (snd (judge_loop i t hands (s, e))) \<and>
   notesState (fst (judge_loop i t hands (s, e))) ! (activeNotes s ! j) = n' \<and>
   activeNotes s ! j \<notin> set (activeNotes (fst (judge_loop i t hands (s, e))))"
proof (induction i arbitrary: s e)
  case 0
  then show ?case by simp
next
  case (Suc i)
  let ?k = "activeNotes s ! j"
  have i: "i < length (activeNotes s)" using Suc.prems by simp
  have wf: "scene_wf s" by (rule Suc.prems(1))
  have d: "distinct (activeNotes s)" using wf by (simp add: scene_wf_def)
  obtain s1 new1 where s1: "judge_note i t hands (s, e) = (s1, e @ new1)"
    "frame_rel s s1 new1" "scene_wf s1"
    "activeNotes s1 = activeNotes s \<or> activeNotes s1 = splice1 i (activeNotes s)"
    "\<forall>k. k \<noteq> activeNotes s ! i \<longrightarrow> notesState s1 ! k = notesState s ! k"
    using judge_note_step [OF wf i, of t hands e] by blast
  have len: "i \<le> length (activeNotes s1)"
    using s1(4) i by (auto simp: length_splice1)
  have loop: "judge_loop (Suc i) t hands (s, e) = judge_loop i t hands (s1, e @ new1)"
    using s1(1) by simp
  show ?case
  proof (cases "j = i")
    case True
    have kin: "?k \<in> set (activeNotes s)" using i True by simp
    have klt: "?k < length (notesState s)" using wf kin by (auto simp: scene_wf_def)
    have pend: "pending (notesState s ! ?k)"
      using wf kin klt unfolding scene_wf_def by blast
    have eq: "judge_note i t hands (s, e) =
        (s\<lparr>notesState := (notesState s)[?k := n'],
           activeNotes := splice1 i (activeNotes s)\<rparr>, e @ [ev])"
      using Suc.prems(4) pend True by (simp add: judge_note_outcome Let_def)
    have s1eq: "s1 = s\<lparr>notesState := (notesState s)[?k := n'],
           activeNotes := splice1 i (activeNotes s)\<rparr>" and new1: "new1 = [ev]"
      using eq s1(1) by simp_all
    have n1: "notesState s1 ! ?k = n'" using klt by (simp add: s1eq)
    have notin1: "?k \<notin> set (activeNotes s1)"
      using d i True by (simp add: s1eq set_splice1)
    have res: "\<not> pending n'"
      using noteOutcome_props(1) [OF Suc.prems(4) pend] .
    obtain s' new2 where s': "judge_loop i t hands (s1, e @ new1) = (s', (e @ new1) @ new2)"
      "frame_rel s1 s' new2" "set (activeNotes s') \<subseteq> set (activeNotes s1)"
      using judge_loop_rel [OF s1(3) len, of t hands "e @ new1"] by blast
    have klt1: "?k < length (notesState s1)" using klt by (simp add: s1eq)
    have "notesState s' ! ?k = notesState s1 ! ?k"
      using s'(2) klt1 res n1 by (simp add: frame_rel_def)
    then show ?thesis
      unfolding loop using s'(1,3) n1 notin1 new1 by auto
  next
    case False
    then have ji: "j < i" using Suc.prems(3) by simp
    have ne: "?k \<noteq> activeNotes s ! i"
      using d ji i by (simp add: nth_eq_iff_index_eq)
    have aj: "activeNotes s1 ! j = ?k"
      using s1(4) ji i by (auto simp: nth_splice1)
    have nk: "notesState s1 ! ?k = notesState s ! ?k"
      using s1(5) ne by blast
    have out: "noteOutcome t hands (activeNotes s1 ! j) (notesState s1 ! (activeNotes s1 ! j)) =
        Some (n', ev)"
      using Suc.prems(4) by (simp add: aj nk)
    show ?thesis
      unfolding loop using Suc.IH [OF s1(3) len ji out, of "e @ new1"] by (simp add: aj)
  qed
qed

lemma useFrame_outcome:
  assumes wf: "scene_wf s" and k: "k \<in> set (activeNotes (spawn_loop t s))"
    and out: "noteOutcome t hands k (notesState s ! k) = Some (n', ev)"
  shows "ev \<in> set (snd (useFrame PLAYING (Some (t, False)) hands s))"
    and "notesState (fst (useFrame PLAYING (Some (t, False)) hands s)) ! k = n'"
    and "k \<notin> set (activeNotes (fst (useFrame PLAYING (Some (t, False)) hands s)))"
    and "events_for k (snd (useFrame PLAYING (Some (t, False)) hands s)) = 1"
proof -
  let ?s1 = "spawn_loop t s"
  let ?r = "useFrame PLAYING (Some (t, False)) hands s"
  have wf1: "scene_wf ?s1" using wf by (rule spawn_loop_wf)
  have nts: "notesState ?s1 = notesState s" using spawn_loop_basic [of t s] by blast
  obtain j where j: "j < length (activeNotes ?s1)" "activeNotes ?s1 ! j = k"
    using k by (auto simp: in_set_conv_nth)
  have out1: "noteOutcome t hands (activeNotes ?s1 ! j) (notesState ?s1 ! (activeNotes ?s1 ! j)) =
      Some (n', ev)"
    using out by (simp add: j nts)
  note l = judge_loop_outcome [OF wf1 order_refl j(1) out1, of "[]", folded useFrame_playing]
  show "ev \<in> set (snd ?r)" "notesState (fst ?r) ! k = n'" "k \<notin> set (activeNotes (fst ?r))"
    using l by (simp_all add: j)
  have klt: "k < length (notesState s)"
    using wf1 k by (auto simp: scene_wf_def nts)
  have pend: "pending (notesState s ! k)"
    using wf1 k klt unfolding scene_wf_def nts by blast
  have "events_for k (snd ?r) + resolvedCount (notesState s ! k) =
      resolvedCount (notesState (fst ?r) ! k)"
    using useFrame_rel(2) [OF wf, of t hands] klt by (simp add: frame_rel_def)
  moreover have "notesState (fst ?r) ! k = n'" using l by (simp add: j)
  moreover have "\<not> pending n'" using noteOutcome_props(1) [OF out pend] .
  ultimately show "events_for k (snd ?r) = 1"
    using pend by (simp add: resolvedCount_def)
qed

lemma judge_note_next:
  "nextNoteIndex (fst (judge_note i t hands se)) = nextNoteIndex (fst se)"
  by (cases se) (simp add: judge_note_outcome Let_def split: option.splits)

lemma judge_loop_next:
  "nextNoteIndex (fst (judge_loop i t hands se)) = nextNoteIndex (fst se)"
  by (induction i arbitrary: se) (simp_all add: judge_note_next)

lemma useFrame_next:
  "nextNoteIndex st \<le> nextNoteIndex (fst (useFrame status audio hands st))"
proof (cases audio)
  case None
  then show ?thesis by (simp add: useFrame_def)
next
  case (Some a)
  obtain t ended where a: "a = (t, ended)" by (cases a)
  have "nextNoteIndex st \<le> nextNoteIndex (spawn_loop t st)"
    using spawn_loop_basic [of t st] by blast
  then show ?thesis
    by (simp add: useFrame_def Some a Let_def judge_loop_next)
qed

lemmas vec_eval = subVectors_def divideScalar_def lerpVectors_def length_v3_def distanceTo_def
  normalize_def dot_def

lemmas const_eval = SPAWN_Z_def PLAYER_Z_def MISS_Z_def NOTE_SPEED_def LANE_WIDTH_def
  LANE_X_POSITIONS_def LAYER_Y_POSITIONS_def spawnAheadTime_def

lemmas scene_eval = useFrame_def initialScene_def initialHands_def spawn_loop.simps
  judge_note_def splice1_def notePosition_def at_index_def goodCutOf_def vec_eval const_eval
  Let_def

lemma event_in_count:
  "e \<in> set evs \<Longrightarrow> event_note e = Some k \<Longrightarrow> 1 \<le> events_for k evs"
  by (induction evs) (auto simp: events_for_def)

lemma resolvedCount_le: "resolvedCount n \<le> 1"
  by (simp add: resolvedCount_def)

lemma startGame_wf: "scene_wf (snd g) \<Longrightarrow> scene_wf (snd (startGame isCameraReady audioPlays g))"
  by (simp add: startGame_def scene_wf_def pending_def Let_def)

lemma initialScene_wf: "scene_wf (snd (startGame True audioPlays (app, initialScene chart)))"
  by (simp add: startGame_def initialScene_def scene_wf_def pending_def Let_def)

lemmas sample_eval = sampleNote_def sampleHands_def scene_eval

lemma initialScene_pending_wf:
  "\<forall>n \<in> set chart. pending n \<Longrightarrow> scene_wf (initialScene chart)"
  by (simp add: scene_wf_def initialScene_def pending_def)

lemma sample_pending: "pending (sampleNote arrival dir)"
  by (simp add: sampleNote_def pending_def)

lemma sample_wf: "scene_wf (initialScene [sampleNote arrival dir])"
  by (rule initialScene_pending_wf) (simp add: sample_pending)

text \<open>
  Claim C7. The lookahead is \<open>|SPAWN_Z - PLAYER_Z| / NOTE_SPEED\<close>, 3 seconds. On a
  chart in ascending order of arrival time, the admission loop of a frame at time \<open>t\<close>
  appends to the active notes the notes from the cursor up to the new cursor, in chart
  order and so in ascending order of arrival time, and these are exactly the notes at or
  after the old cursor with \<open>t \<ge> arrivalTime - lookahead\<close>. The chart is not changed,
  no note is admitted twice, and the cursor never goes back in any frame.
\<close>

theorem admission:
  "chartSorted (notesState st) \<Longrightarrow>
   spawnAheadTime = \<bar>SPAWN_Z - PLAYER_Z\<bar> / NOTE_SPEED \<and> spawnAheadTime = 3 \<and>
   notesState (spawn_loop t st) = notesState st \<and>
   nextNoteIndex st \<le> nextNoteIndex (spawn_loop t st) \<and>
   activeNotes (spawn_loop t st) =
     activeNotes st @ [nextNoteIndex st ..< nextNoteIndex (spawn_loop t st)] \<and>
   (\<forall>k. nextNoteIndex st \<le> k \<and> k < length (notesState st) \<longrightarrow>
      (k \<in> set [nextNoteIndex st ..< nextNoteIndex (spawn_loop t st)]) =
      (t \<ge> time (notesState st ! k) - spawnAheadTime)) \<and>
   sorted (map (\<lambda>k. time (notesState st ! k))
     [nextNoteIndex st ..< nextNoteIndex (spawn_loop t st)]) \<and>
   (scene_wf st \<longrightarrow> distinct (activeNotes (spawn_loop t st))) \<and>
   nextNoteIndex st \<le> nextNoteIndex (fst (useFrame status audio hands st))"
proof -
  assume srt: "chartSorted (notesState st)"
  let ?n = "nextNoteIndex st"
  let ?n' = "nextNoteIndex (spawn_loop t st)"
  note b = spawn_loop_basic [of t st]
  have iff: "(k \<in> set [?n ..< ?n']) = (t \<ge> time (notesState st ! k) - spawnAheadTime)"
    if "?n \<le> k" "k < length (notesState st)" for k
    using spawn_loop_sorted [OF srt that, of t] that by simp
  have asc: "sorted (map (\<lambda>k. time (notesState st ! k)) [?n ..< ?n'])"
  proof (cases "?n \<le> length (notesState st)")
    case True
    then have le: "?n' \<le> length (notesState st)" using b by blast
    show ?thesis
      unfolding sorted_iff_nth_mono
    proof (intro allI impI)
      fix i j
      assume ij: "i \<le> j" "j < length (map (\<lambda>k. time (notesState st ! k)) [?n ..< ?n'])"
      then have "?n + j < length (notesState st)" using le by simp
      then have "time (notesState st ! (?n + i)) \<le> time (notesState st ! (?n + j))"
        using chartSorted_nth [OF srt, of "?n + i" "?n + j"] ij by simp
      then show "map (\<lambda>k. time (notesState st ! k)) [?n ..< ?n'] ! i \<le>
          map (\<lambda>k. time (notesState st ! k)) [?n ..< ?n'] ! j"
        using ij by simp
    qed
  next
    case False
    then have "spawn_loop t st = st" by (simp add: spawn_loop.simps [of t st])
    then show ?thesis by simp
  qed
  have d: "scene_wf st \<longrightarrow> distinct (activeNotes (spawn_loop t st))"
    using spawn_loop_wf(1) [of st t] by (auto simp: scene_wf_def)
  show ?thesis
    using b iff asc d useFrame_next [of st status audio hands] spawnAheadTime_3
    by (simp add: spawnAheadTime_def)
qed

theorem admission_witness:
  "chartSorted (notesState (initialScene [sampleNote 1 ANY, sampleNote 2 ANY, sampleNote 10 ANY])) \<and>
   nextNoteIndex (spawn_loop 0.5
     (initialScene [sampleNote 1 ANY, sampleNote 2 ANY, sampleNote 10 ANY])) = 2 \<and>
   activeNotes (spawn_loop 0.5
     (initialScene [sampleNote 1 ANY, sampleNote 2 ANY, sampleNote 10 ANY])) = [] @ [0 ..< 2] \<and>
   scene_wf (initialScene [sampleNote 1 ANY, sampleNote 2 ANY, sampleNote 10 ANY]) \<and>
   distinct (activeNotes (spawn_loop 0.5
     (initialScene [sampleNote 1 ANY, sampleNote 2 ANY, sampleNote 10 ANY]))) \<and>
   (1 \<in> set [0 ..< (2::nat)]) = ((0.5::real) \<ge> time (sampleNote 2 ANY) - spawnAheadTime) \<and>
   (2 \<in> set [0 ..< (2::nat)]) = ((0.5::real) \<ge> time (sampleNote 10 ANY) - spawnAheadTime)"
proof -
  let ?st = "initialScene [sampleNote 1 ANY, sampleNote 2 ANY, sampleNote 10 ANY]"
  have h: "chartSorted (notesState ?st)"
    by (simp add: chartSorted_def initialScene_def sampleNote_def)
  have n: "nextNoteIndex (spawn_loop 0.5 ?st) = 2"
    by (simp add: sample_eval)
  have s0: "nextNoteIndex ?st = 0" "activeNotes ?st = []"
    "notesState ?st ! 1 = sampleNote 2 ANY" "notesState ?st ! 2 = sampleNote 10 ANY"
    "length (notesState ?st) = 3"
    by (simp_all add: initialScene_def)
  note t = admission [OF h, of "0.5" PLAYING None initialHands, unfolded n s0]
  have a: "activeNotes (spawn_loop 0.5 ?st) = [] @ [0 ..< 2]" using t by blast
  have every: "\<forall>k. 0 \<le> k \<and> k < 3 \<longrightarrow>
      (k \<in> set [0 ..< (2::nat)]) = ((0.5::real) \<ge> time (notesState ?st ! k) - spawnAheadTime)"
    using t by blast
  have p1: "(0::nat) \<le> 1 \<and> (1::nat) < 3" and p2: "(0::nat) \<le> 2 \<and> (2::nat) < 3"
    by simp_all
  have "(1 \<in> set [0 ..< (2::nat)]) = ((0.5::real) \<ge> time (notesState ?st ! 1) - spawnAheadTime)"
    "(2 \<in> set [0 ..< (2::nat)]) = ((0.5::real) \<ge> time (notesState ?st ! 2) - spawnAheadTime)"
    using every [THEN spec, of 1, THEN mp, OF p1] every [THEN spec, of 2, THEN mp, OF p2]
    by blast+
  moreover have w: "scene_wf ?st"
    by (rule initialScene_pending_wf) (simp add: sample_pending)
  moreover have "distinct (activeNotes (spawn_loop 0.5 ?st))"
    using t w by blast
  ultimately show ?thesis using h n a unfolding s0 by blast
qed

text \<open>
  Claim C4. Over any run of frames of a playing session, every note has at most one event,
  so never a Hit and a Missed; a note it finds resolved keeps its flags and has no event
  (it is never pending again and never judged again); no note has both flags; a note with
  a Hit event has the flag \<open>hit\<close> only and one with a Missed event the flag
  \<open>missed\<close> only; and the notes left active are all pending, a resolved note having
  been taken out at once. The scene that \<open>startGame\<close> leaves is one to which this
  applies.
\<close>

theorem outcome_once:
  "scene_wf st \<Longrightarrow>
   scene_wf (fst (playFrames st frames)) \<and>
   length (notesState (fst (playFrames st frames))) = length (notesState st) \<and>
   (\<forall>k. events_for k (snd (playFrames st frames)) \<le> 1) \<and>
   (\<forall>k < length (notesState st). \<not> pending (notesState st ! k) \<longrightarrow>
      notesState (fst (playFrames st frames)) ! k = notesState st ! k \<and>
      events_for k (snd (playFrames st frames)) = 0) \<and>
   (\<forall>k < length (notesState st).
      \<not> (hit (notesState (fst (playFrames st frames)) ! k) \<and>
         missed (notesState (fst (playFrames st frames)) ! k))) \<and>
   (\<forall>k \<in> set (activeNotes (fst (playFrames st frames))).
      pending (notesState (fst (playFrames st frames)) ! k)) \<and>
   (\<forall>k g. Hit k g \<in> set (snd (playFrames st frames)) \<longrightarrow>
      Missed k \<notin> set (snd (playFrames st frames)) \<and>
      hit (notesState (fst (playFrames st frames)) ! k) \<and>
      \<not> missed (notesState (fst (playFrames st frames)) ! k)) \<and>
   (\<forall>k. Missed k \<in> set (snd (playFrames st frames)) \<longrightarrow>
      missed (notesState (fst (playFrames st frames)) ! k) \<and>
      \<not> hit (notesState (fst (playFrames st frames)) ! k)) \<and>
   scene_wf (snd (startGame True audioPlays (app, initialScene chart))) \<and>
   scene_wf (snd (startGame isCameraReady audioPlays (app, st)))"
proof -
  assume wf: "scene_wf st"
  let ?s' = "fst (playFrames st frames)"
  let ?evs = "snd (playFrames st frames)"
  have wf': "scene_wf ?s'" and rel: "frame_rel st ?s' ?evs"
    using playFrames_rel [OF wf, of frames] by blast+
  have len: "length (notesState ?s') = length (notesState st)"
    using rel by (simp add: frame_rel_def)
  have cnt: "events_for k ?evs + resolvedCount (notesState st ! k) =
      resolvedCount (notesState ?s' ! k)" if "k < length (notesState st)" for k
    using rel that by (simp add: frame_rel_def)
  have out: "events_for k ?evs = 0" if "length (notesState st) \<le> k" for k
    using rel that by (simp add: frame_rel_def)
  have once: "events_for k ?evs \<le> 1" for k
  proof (cases "k < length (notesState st)")
    case True
    then show ?thesis using cnt [OF True] resolvedCount_le [of "notesState ?s' ! k"] by simp
  next
    case False
    then show ?thesis using out [of k] by simp
  qed
  have stay: "notesState ?s' ! k = notesState st ! k \<and> events_for k ?evs = 0"
    if "k < length (notesState st)" "\<not> pending (notesState st ! k)" for k
  proof -
    have "notesState ?s' ! k = notesState st ! k"
      using rel that by (simp add: frame_rel_def)
    then show ?thesis using cnt [OF that(1)] by simp
  qed
  have both: "\<not> (hit (notesState ?s' ! k) \<and> missed (notesState ?s' ! k))"
    if "k < length (notesState st)" for k
    using wf' that len unfolding scene_wf_def by simp
  have act: "pending (notesState ?s' ! k)" if "k \<in> set (activeNotes ?s')" for k
  proof -
    have "k < length (notesState ?s')" using wf' that by (auto simp: scene_wf_def)
    then show ?thesis using wf' that unfolding scene_wf_def by blast
  qed
  have inrange: "k < length (notesState st)" if "e \<in> set ?evs" "event_note e = Some k" for e k
  proof (rule ccontr)
    assume "\<not> k < length (notesState st)"
    then have "events_for k ?evs = 0" using out [of k] by simp
    then show False using event_in_count [OF that] by simp
  qed
  have h: "hit (notesState ?s' ! k)" if "Hit k g \<in> set ?evs" for k g
    using rel that inrange [OF that] by (auto simp: frame_rel_def)
  have m: "missed (notesState ?s' ! k)" if "Missed k \<in> set ?evs" for k
    using rel that inrange [OF that] by (auto simp: frame_rel_def)
  have hm: "Missed k \<notin> set ?evs \<and> hit (notesState ?s' ! k) \<and> \<not> missed (notesState ?s' ! k)"
    if "Hit k g \<in> set ?evs" for k g
    using h [OF that] m [of k] both [OF inrange [OF that]] by auto
  have mh: "missed (notesState ?s' ! k) \<and> \<not> hit (notesState ?s' ! k)"
    if "Missed k \<in> set ?evs" for k
    using m [OF that] both [OF inrange [OF that]] by auto
  have sg: "scene_wf (snd (startGame isCameraReady audioPlays (app, st)))"
    using startGame_wf [of "(app, st)"] wf by simp
  show ?thesis
    using wf' len once stay both act hm mh initialScene_wf sg by blast
qed

theorem outcome_once_witness:
  "scene_wf (initialScene [sampleNote 2 ANY]) \<and>
   snd (playFrames (initialScene [sampleNote 2 ANY])
     [(2, sampleHands (2, 0, 0)), (2.6, sampleHands (2, 0, 0))]) = [Hit 0 True] \<and>
   events_for 0 (snd (playFrames (initialScene [sampleNote 2 ANY])
     [(2, sampleHands (2, 0, 0)), (2.6, sampleHands (2, 0, 0))])) \<le> 1 \<and>
   Missed 0 \<notin> set (snd (playFrames (initialScene [sampleNote 2 ANY])
     [(2, sampleHands (2, 0, 0)), (2.6, sampleHands (2, 0, 0))])) \<and>
   hit (notesState (fst (playFrames (initialScene [sampleNote 2 ANY])
     [(2, sampleHands (2, 0, 0)), (2.6, sampleHands (2, 0, 0))])) ! 0)"
proof -
  let ?st = "initialScene [sampleNote 2 ANY]"
  let ?fs = "[(2, sampleHands (2, 0, 0)), (2.6, sampleHands (2, 0, 0))]"
  have h1: "scene_wf ?st" by (rule sample_wf)
  have c: "snd (playFrames ?st ?fs) = [Hit 0 True]"
    by (simp add: sample_eval)
  then have i: "Hit 0 True \<in> set (snd (playFrames ?st ?fs))" by simp
  note t = outcome_once [OF h1, of ?fs True initialApp "[]" True]
  have "events_for 0 (snd (playFrames ?st ?fs)) \<le> 1" using t by blast
  moreover have "Missed 0 \<notin> set (snd (playFrames ?st ?fs)) \<and>
      hit (notesState (fst (playFrames ?st ?fs)) ! 0)"
    using t i by blast
  ultimately show ?thesis using h1 c by blast
qed

text \<open>
  Claim C6. A note that is active in a frame (already active or admitted in this frame)
  and whose depth \<open>PLAYER_Z - (arrivalTime - now) * NOTE_SPEED\<close> is beyond \<open>MISS_Z\<close>,
  5 units behind the judgment plane, gets the event Missed and no Hit, is marked missed and
  is taken out of the active notes, whatever the hands are.
\<close>

theorem miss_rule:
  "scene_wf st \<Longrightarrow> k \<in> set (activeNotes (spawn_loop t st)) \<Longrightarrow>
   PLAYER_Z - ((time (notesState st ! k) - t) * NOTE_SPEED) > MISS_Z \<Longrightarrow>
   Missed k \<in> set (snd (useFrame PLAYING (Some (t, False)) hands st)) \<and>
   (\<forall>g. Hit k g \<notin> set (snd (useFrame PLAYING (Some (t, False)) hands st))) \<and>
   events_for k (snd (useFrame PLAYING (Some (t, False)) hands st)) = 1 \<and>
   missed (notesState (fst (useFrame PLAYING (Some (t, False)) hands st)) ! k) \<and>
   \<not> hit (notesState (fst (useFrame PLAYING (Some (t, False)) hands st)) ! k) \<and>
   k \<notin> set (activeNotes (fst (useFrame PLAYING (Some (t, False)) hands st))) \<and>
   MISS_Z = PLAYER_Z + 5"
proof -
  assume wf: "scene_wf st" and k: "k \<in> set (activeNotes (spawn_loop t st))"
    and z: "PLAYER_Z - ((time (notesState st ! k) - t) * NOTE_SPEED) > MISS_Z"
  let ?r = "useFrame PLAYING (Some (t, False)) hands st"
  let ?note = "notesState st ! k"
  have out: "noteOutcome t hands k ?note = Some (?note\<lparr>missed := True\<rparr>, Missed k)"
    using z by (simp add: noteOutcome_def Let_def)
  note u = useFrame_outcome [OF wf k out]
  have wf1: "scene_wf (spawn_loop t st)" using wf by (rule spawn_loop_wf)
  have nts: "notesState (spawn_loop t st) = notesState st"
    using spawn_loop_basic [of t st] by blast
  have klt: "k < length (notesState st)"
    using wf1 k by (auto simp: scene_wf_def nts)
  have pend: "pending ?note"
    using wf1 k klt unfolding scene_wf_def nts by blast
  have nohit: "\<not> hit (notesState (fst ?r) ! k)"
    using u(2) pend by (simp add: pending_def)
  have "Hit k g \<notin> set (snd ?r)" for g
    using useFrame_rel(2) [OF wf, of t hands] klt nohit by (auto simp: frame_rel_def)
  moreover have "missed (notesState (fst ?r) ! k)" using u(2) by simp
  moreover have "MISS_Z = PLAYER_Z + 5" by (simp add: MISS_Z_def PLAYER_Z_def)
  ultimately show ?thesis using u(1,3,4) nohit by blast
qed

theorem miss_rule_witness:
  "scene_wf (initialScene [sampleNote 2 ANY]) \<and>
   0 \<in> set (activeNotes (spawn_loop 2.6 (initialScene [sampleNote 2 ANY]))) \<and>
   PLAYER_Z - ((time (notesState (initialScene [sampleNote 2 ANY]) ! 0) - 2.6) * NOTE_SPEED) > MISS_Z \<and>
   left (sampleHands (2, 0, 0)) = Some (- 0.4, 0.8, 0) \<and>
   Missed 0 \<in> set (snd (useFrame PLAYING (Some (2.6, False)) (sampleHands (2, 0, 0))
     (initialScene [sampleNote 2 ANY]))) \<and>
   missed (notesState (fst (useFrame PLAYING (Some (2.6, False)) (sampleHands (2, 0, 0))
     (initialScene [sampleNote 2 ANY]))) ! 0) \<and>
   0 \<notin> set (activeNotes (fst (useFrame PLAYING (Some (2.6, False)) (sampleHands (2, 0, 0))
     (initialScene [sampleNote 2 ANY]))))"
proof -
  have h1: "scene_wf (initialScene [sampleNote 2 ANY])" by (rule sample_wf)
  have h2: "0 \<in> set (activeNotes (spawn_loop 2.6 (initialScene [sampleNote 2 ANY])))"
    by (simp add: sample_eval)
  have h3: "PLAYER_Z - ((time (notesState (initialScene [sampleNote 2 ANY]) ! 0) - 2.6) * NOTE_SPEED)
      > MISS_Z"
    by (simp add: sample_eval)
  have h4: "left (sampleHands (2, 0, 0)) = Some (- 0.4, 0.8, 0)"
    by (simp add: sampleHands_def)
  show ?thesis
    using h1 h2 h3 h4 miss_rule [OF h1 h2 h3, of "sampleHands (2, 0, 0)"] by blast
qed

text \<open>
  Claim C5. A note in the collision window whose hand is within distance 0.8 and which asks
  for a direction other than ANY gets a Hit event in that frame, and never a Missed one;
  the hit is good exactly when the dot product of the normalized hand velocity with the
  direction vector is at least 0.3 and the speed is at least 1.5, and weak otherwise.
\<close>

theorem direction_gate:
  "scene_wf st \<Longrightarrow> k \<in> set (activeNotes (spawn_loop t st)) \<Longrightarrow>
   note = notesState st ! k \<Longrightarrow>
   currentZ = PLAYER_Z - ((time note - t) * NOTE_SPEED) \<Longrightarrow>
   PLAYER_Z - 1.5 < currentZ \<Longrightarrow> currentZ < PLAYER_Z + 1.0 \<Longrightarrow>
   (if handType note = LeftHand then left hands else right hands) = Some handPos \<Longrightarrow>
   handVel = (if handType note = LeftHand then leftVelocity hands else rightVelocity hands) \<Longrightarrow>
   notePosition note currentZ = Some notePos \<Longrightarrow>
   distanceTo handPos notePos < 0.8 \<Longrightarrow>
   cutDirection note \<noteq> ANY \<Longrightarrow>
   Hit k (dot (normalize handVel) (DIRECTION_VECTORS (cutDirection note)) \<ge> 0.3 \<and>
          length_v3 handVel \<ge> 1.5)
     \<in> set (snd (useFrame PLAYING (Some (t, False)) hands st)) \<and>
   Missed k \<notin> set (snd (useFrame PLAYING (Some (t, False)) hands st)) \<and>
   events_for k (snd (useFrame PLAYING (Some (t, False)) hands st)) = 1 \<and>
   hit (notesState (fst (useFrame PLAYING (Some (t, False)) hands st)) ! k) \<and>
   \<not> missed (notesState (fst (useFrame PLAYING (Some (t, False)) hands st)) ! k) \<and>
   k \<notin> set (activeNotes (fst (useFrame PLAYING (Some (t, False)) hands st)))"
proof -
  assume wf: "scene_wf st" and k: "k \<in> set (activeNotes (spawn_loop t st))"
    and nt: "note = notesState st ! k"
    and cz: "currentZ = PLAYER_Z - ((time note - t) * NOTE_SPEED)"
    and win: "PLAYER_Z - 1.5 < currentZ" "currentZ < PLAYER_Z + 1.0"
    and hp: "(if handType note = LeftHand then left hands else right hands) = Some handPos"
    and hv: "handVel = (if handType note = LeftHand then leftVelocity hands else rightVelocity hands)"
    and np: "notePosition note currentZ = Some notePos"
    and dist: "distanceTo handPos notePos < 0.8"
    and dir: "cutDirection note \<noteq> ANY"
  let ?r = "useFrame PLAYING (Some (t, False)) hands st"
  let ?good = "dot (normalize handVel) (DIRECTION_VECTORS (cutDirection note)) \<ge> 0.3 \<and>
          length_v3 handVel \<ge> 1.5"
  have nomiss: "\<not> currentZ > MISS_Z"
    using win(2) by (simp add: MISS_Z_def PLAYER_Z_def)
  have good: "goodCutOf (cutDirection note) handVel = ?good"
    using dir by (auto simp: goodCutOf_def Let_def)
  have out: "noteOutcome t hands k (notesState st ! k) =
      Some (note\<lparr>hit := True, hitTime := Some t\<rparr>, Hit k ?good)"
    using nomiss win hp np dist good
    unfolding noteOutcome_def nt [symmetric] Let_def cz [symmetric] hv [symmetric]
    by simp
  note u = useFrame_outcome [OF wf k out]
  have wf1: "scene_wf (spawn_loop t st)" using wf by (rule spawn_loop_wf)
  have nts: "notesState (spawn_loop t st) = notesState st"
    using spawn_loop_basic [of t st] by blast
  have klt: "k < length (notesState st)"
    using wf1 k by (auto simp: scene_wf_def nts)
  have pend: "pending note"
    using wf1 k klt unfolding scene_wf_def nts nt by blast
  have nomissed: "\<not> missed (notesState (fst ?r) ! k)"
    using u(2) pend by (simp add: pending_def)
  have "Missed k \<notin> set (snd ?r)"
    using useFrame_rel(2) [OF wf, of t hands] klt nomissed by (auto simp: frame_rel_def)
  moreover have "hit (notesState (fst ?r) ! k)" using u(2) by simp
  ultimately show ?thesis using u(1,3,4) nomissed by blast
qed

theorem direction_gate_witness:
  "scene_wf (initialScene [sampleNote 2 UP]) \<and>
   0 \<in> set (activeNotes (spawn_loop 2 (initialScene [sampleNote 2 UP]))) \<and>
   distanceTo (- 0.4, 0.8, 0) (- 0.4, 0.8, 0) < 0.8 \<and>
   cutDirection (sampleNote 2 UP) \<noteq> ANY \<and>
   snd (useFrame PLAYING (Some (2, False)) (sampleHands (0, 2, 0))
     (initialScene [sampleNote 2 UP])) = [Hit 0 True] \<and>
   Hit 0 True \<in> set (snd (useFrame PLAYING (Some (2, False)) (sampleHands (0, 2, 0))
     (initialScene [sampleNote 2 UP]))) \<and>
   Hit 0 False \<in> set (snd (useFrame PLAYING (Some (2, False)) (sampleHands (2, 0, 0))
     (initialScene [sampleNote 2 UP])))"
proof -
  let ?st = "initialScene [sampleNote 2 UP]"
  have h1: "scene_wf ?st" by (rule sample_wf)
  have h2: "0 \<in> set (activeNotes (spawn_loop 2 ?st))"
    by (simp add: sample_eval)
  have h3: "sampleNote 2 UP = notesState ?st ! 0"
    by (simp add: initialScene_def)
  have h4: "0 = PLAYER_Z - ((time (sampleNote 2 UP) - 2) * NOTE_SPEED)"
    by (simp add: sample_eval)
  have h5: "PLAYER_Z - 1.5 < 0" "(0::real) < PLAYER_Z + 1.0"
    by (simp_all add: PLAYER_Z_def)
  have h6: "(if handType (sampleNote 2 UP) = LeftHand then left (sampleHands v)
      else right (sampleHands v)) = Some (- 0.4, 0.8, 0)" for v
    by (simp add: sample_eval)
  have h7: "v = (if handType (sampleNote 2 UP) = LeftHand then leftVelocity (sampleHands v)
      else rightVelocity (sampleHands v))" for v
    by (simp add: sample_eval)
  have h8: "notePosition (sampleNote 2 UP) 0 = Some (- 0.4, 0.8, 0)"
    by (simp add: sample_eval)
  have h9: "distanceTo (- 0.4, 0.8, 0) (- 0.4, 0.8, 0) < 0.8"
    by (simp add: vec_eval)
  have h10: "cutDirection (sampleNote 2 UP) \<noteq> ANY"
    by (simp add: sampleNote_def)
  have g: "(dot (normalize (0, 2, 0)) (DIRECTION_VECTORS (cutDirection (sampleNote 2 UP))) \<ge> 0.3 \<and>
      length_v3 (0, 2, 0) \<ge> 1.5) = True"
    by (simp add: sampleNote_def vec_eval)
  have w: "(dot (normalize (2, 0, 0)) (DIRECTION_VECTORS (cutDirection (sampleNote 2 UP))) \<ge> 0.3 \<and>
      length_v3 (2, 0, 0) \<ge> 1.5) = False"
    by (simp add: sampleNote_def vec_eval)
  have c1: "Hit 0 True \<in> set (snd (useFrame PLAYING (Some (2, False)) (sampleHands (0, 2, 0)) ?st))"
    using direction_gate [OF h1 h2 h3 h4 h5 h6 h7 h8 h9 h10, of "(0, 2, 0)"]
    unfolding g by blast
  have c2: "Hit 0 False \<in> set (snd (useFrame PLAYING (Some (2, False)) (sampleHands (2, 0, 0)) ?st))"
    using direction_gate [OF h1 h2 h3 h4 h5 h6 h7 h8 h9 h10, of "(2, 0, 0)"]
    unfolding w by blast
  have c3: "snd (useFrame PLAYING (Some (2, False)) (sampleHands (0, 2, 0)) ?st) = [Hit 0 True]"
    by (simp add: sample_eval)
  show ?thesis
    using h1 h2 h9 h10 c1 c2 c3 by blast
qed

section \<open>The multiplier in the score state\<close>

lemmas app_eval = applyFrames_def applyFrameEvents_def applyFrameEventsWith_def frameUpdates_def
  render_def handleNoteHit_def handleNoteMiss_def endGame_def noUpdates_def runComboUpdates_def
  runHealthUpdates_def comboHitUpdater_def healthMissUpdater_def comboMultiplier_def
  initialApp_def Let_def

lemma ten_hits:
  "applyFrames (initialApp\<lparr>gameStatus := PLAYING\<rparr>)
     (map (\<lambda>e. [e])
       [Hit 0 True, Hit 1 True, Hit 2 True, Hit 3 True, Hit 4 True,
        Hit 5 True, Hit 6 True, Hit 7 True, Hit 8 True, Hit 9 True]) =
   \<lparr>gameStatus = PLAYING, score = 1500, combo = 10, multiplier = 1, health = 100\<rparr>"
  by (simp add: app_eval)

lemma scenario_frame:
  "useFrame PLAYING (Some (2, False)) (sampleHands (2, 0, 0)) (initialScene [sampleNote 2 ANY]) =
   (\<lparr>notesState = [(sampleNote 2 ANY)\<lparr>hit := True, hitTime := Some 2\<rparr>],
     activeNotes = [], nextNoteIndex = 1\<rparr>, [Hit 0 True])"
  by (simp add: sample_eval)

lemma hit_and_miss_frame:
  "snd (useFrame PLAYING (Some (2.6, False)) (sampleHands (2, 0, 0))
     \<lparr>notesState = [sampleNote 2 ANY, sampleNote 2.6 ANY], activeNotes = [0, 1],
      nextNoteIndex = 2\<rparr>) = [Hit 1 True, Missed 0]"
  by (simp add: sample_eval)

text \<open>
  Claim C1, where the code departs from it. After ten frames with a good hit each the combo
  is 10, the multiplier 1 and the score 1500. The next good hit takes the combo to 11 and
  the multiplier to 2, and adds 150 to the score, not 150 times 2: the factor is the
  multiplier captured by the handler at the last render, not the one recomputed from the
  incremented combo. With two good hits in that frame the combo goes to 12, the multiplier
  to 2, and the score grows by 150 twice. In the scenario of the single target (lane 1,
  layer 0, left hand, any direction, arrival at 2.0; the left hand at the slot with speed
  2.0 at time 2.0) the frame reports one good hit and the score grows by 150 times 1, as
  the claim says.
\<close>

theorem hit_scored_with_captured_multiplier:
  "applyFrames (initialApp\<lparr>gameStatus := PLAYING\<rparr>)
     (map (\<lambda>e. [e])
       [Hit 0 True, Hit 1 True, Hit 2 True, Hit 3 True, Hit 4 True,
        Hit 5 True, Hit 6 True, Hit 7 True, Hit 8 True, Hit 9 True]) =
     \<lparr>gameStatus = PLAYING, score = 1500, combo = 10, multiplier = 1, health = 100\<rparr> \<and>
   applyFrameEvents
     \<lparr>gameStatus = PLAYING, score = 1500, combo = 10, multiplier = 1, health = 100\<rparr>
     [Hit 10 True] =
     \<lparr>gameStatus = PLAYING, score = 1500 + 150, combo = 11, multiplier = 2, health = 100\<rparr> \<and>
   (1500::int) + 150 \<noteq> 1500 + 150 * comboMultiplier 11 \<and>
   applyFrameEvents
     \<lparr>gameStatus = PLAYING, score = 1500, combo = 10, multiplier = 1, health = 100\<rparr>
     [Hit 10 True, Hit 11 True] =
     \<lparr>gameStatus = PLAYING, score = 1500 + 150 + 150, combo = 12, multiplier = 2, health = 100\<rparr> \<and>
   (1500::int) + 150 + 150 \<noteq> 1500 + 150 * comboMultiplier 11 + 150 * comboMultiplier 12 \<and>
   snd (useFrame PLAYING (Some (2, False)) (sampleHands (2, 0, 0))
     (initialScene [sampleNote 2 ANY])) = [Hit 0 True] \<and>
   gameFrame (Some (2, False)) (sampleHands (2, 0, 0))
     (initialApp\<lparr>gameStatus := PLAYING\<rparr>, initialScene [sampleNote 2 ANY]) =
     (\<lparr>gameStatus = PLAYING, score = 150 * 1, combo = 1, multiplier = 1, health = 100\<rparr>,
      \<lparr>notesState = [(sampleNote 2 ANY)\<lparr>hit := True, hitTime := Some 2\<rparr>],
       activeNotes = [], nextNoteIndex = 1\<rparr>)"
proof -
  have a: "applyFrameEvents
     \<lparr>gameStatus = PLAYING, score = 1500, combo = 10, multiplier = 1, health = 100\<rparr>
     [Hit 10 True] =
     \<lparr>gameStatus = PLAYING, score = 1500 + 150, combo = 11, multiplier = 2, health = 100\<rparr>"
    by (simp add: app_eval)
  have b: "applyFrameEvents
     \<lparr>gameStatus = PLAYING, score = 1500, combo = 10, multiplier = 1, health = 100\<rparr>
     [Hit 10 True, Hit 11 True] =
     \<lparr>gameStatus = PLAYING, score = 1500 + 150 + 150, combo = 12, multiplier = 2, health = 100\<rparr>"
    by (simp add: app_eval)
  have c: "(1500::int) + 150 \<noteq> 1500 + 150 * comboMultiplier 11"
    "(1500::int) + 150 + 150 \<noteq> 1500 + 150 * comboMultiplier 11 + 150 * comboMultiplier 12"
    by (simp_all add: comboMultiplier_def)
  have d: "snd (useFrame PLAYING (Some (2, False)) (sampleHands (2, 0, 0))
     (initialScene [sampleNote 2 ANY])) = [Hit 0 True]"
    by (simp add: scenario_frame)
  have e: "gameFrame (Some (2, False)) (sampleHands (2, 0, 0))
     (initialApp\<lparr>gameStatus := PLAYING\<rparr>, initialScene [sampleNote 2 ANY]) =
     (\<lparr>gameStatus = PLAYING, score = 150 * 1, combo = 1, multiplier = 1, health = 100\<rparr>,
      \<lparr>notesState = [(sampleNote 2 ANY)\<lparr>hit := True, hitTime := Some 2\<rparr>],
       activeNotes = [], nextNoteIndex = 1\<rparr>)"
    by (simp add: gameFrame_def scenario_frame app_eval)
  from ten_hits a b c d e show ?thesis by blast
qed

text \<open>
  Claim C8, where the code departs from it. The thresholds are as the claim gives them:
  the value computed for the combos 0, 10, 11, 20, 21, 30 and 31 is 1, 1, 2, 2, 4, 4 and
  8. But the multiplier of the state is not always that function of the combo of the
  state. With combo 10 and multiplier 1, a frame in which the judge reports a hit of a
  newer note and then a miss of an older one (it walks the active notes from the newest
  down) ends with combo 0 and multiplier 2: \<open>handleNoteMiss\<close> calls \<open>setMultiplier (1)\<close>
  at once, while the \<open>setMultiplier (2)\<close> of the hit is called by the updater of the
  combo at the render and comes last. The next hit is then scored twofold at combo 1.
\<close>

theorem multiplier_left_stale_by_miss:
  "comboMultiplier 0 = 1 \<and> comboMultiplier 10 = 1 \<and>
   comboMultiplier 11 = 2 \<and> comboMultiplier 20 = 2 \<and>
   comboMultiplier 21 = 4 \<and> comboMultiplier 30 = 4 \<and>
   comboMultiplier 31 = 8 \<and>
   applyFrames (initialApp\<lparr>gameStatus := PLAYING\<rparr>)
     (map (\<lambda>e. [e])
       [Hit 0 True, Hit 1 True, Hit 2 True, Hit 3 True, Hit 4 True,
        Hit 5 True, Hit 6 True, Hit 7 True, Hit 8 True, Hit 9 True]) =
     \<lparr>gameStatus = PLAYING, score = 1500, combo = 10, multiplier = 1, health = 100\<rparr> \<and>
   snd (useFrame PLAYING (Some (2.6, False)) (sampleHands (2, 0, 0))
     \<lparr>notesState = [sampleNote 2 ANY, sampleNote 2.6 ANY], activeNotes = [0, 1],
      nextNoteIndex = 2\<rparr>) = [Hit 1 True, Missed 0] \<and>
   applyFrameEvents
     \<lparr>gameStatus = PLAYING, score = 1500, combo = 10, multiplier = 1, health = 100\<rparr>
     [Hit 1 True, Missed 0] =
     \<lparr>gameStatus = PLAYING, score = 1650, combo = 0, multiplier = 2, health = 85\<rparr> \<and>
   multiplier \<lparr>gameStatus = PLAYING, score = 1650, combo = 0, multiplier = 2, health = 85\<rparr> \<noteq>
     comboMultiplier
       (combo \<lparr>gameStatus = PLAYING, score = 1650, combo = 0, multiplier = 2, health = 85\<rparr>) \<and>
   applyFrameEvents
     \<lparr>gameStatus = PLAYING, score = 1650, combo = 0, multiplier = 2, health = 85\<rparr>
     [Hit 2 True] =
     \<lparr>gameStatus = PLAYING, score = 1650 + 150 * 2, combo = 1, multiplier = 1, health = 87\<rparr>"
proof -
  have a: "comboMultiplier 0 = 1 \<and> comboMultiplier 10 = 1 \<and>
     comboMultiplier 11 = 2 \<and> comboMultiplier 20 = 2 \<and>
     comboMultiplier 21 = 4 \<and> comboMultiplier 30 = 4 \<and>
     comboMultiplier 31 = 8"
    by (simp add: comboMultiplier_def)
  have b: "applyFrameEvents
     \<lparr>gameStatus = PLAYING, score = 1500, combo = 10, multiplier = 1, health = 100\<rparr>
     [Hit 1 True, Missed 0] =
     \<lparr>gameStatus = PLAYING, score = 1650, combo = 0, multiplier = 2, health = 85\<rparr>"
    by (simp add: app_eval)
  have c: "multiplier \<lparr>gameStatus = PLAYING, score = 1650, combo = 0, multiplier = 2, health = 85\<rparr> \<noteq>
     comboMultiplier
       (combo \<lparr>gameStatus = PLAYING, score = 1650, combo = 0, multiplier = 2, health = 85\<rparr>)"
    by (simp add: comboMultiplier_def)
  have d: "applyFrameEvents
     \<lparr>gameStatus = PLAYING, score = 1650, combo = 0, multiplier = 2, health = 85\<rparr>
     [Hit 2 True] =
     \<lparr>gameStatus = PLAYING, score = 1650 + 150 * 2, combo = 1, multiplier = 1, health = 87\<rparr>"
    by (simp add: app_eval)
  from a ten_hits hit_and_miss_frame b c d show ?thesis by blast
qed

end
